theory Spec2Isabelle
  imports Complex_Main "HOL-Library.Signed_Division"
begin

section \<open>SoftPool CUDA kernels (pytorch/CUDA/softpool\_cuda\_kernel.cu)\<close>

text \<open>
  The kernels are templates over a scalar type \<open>scalar_t\<close> (float, double or half).
  The model takes \<open>scalar_t\<close> to be \<^typ>\<open>real\<close>: every finite value, with exact
  arithmetic, so rounding, infinities and NaN are outside the model.  What the file
  does not define is a parameter of every kernel:
  \<^item> \<open>ex\<close>, the device exponential \<open>exp\<close> on \<open>scalar_t\<close>;
  \<^item> \<open>upper\<close> and \<open>lower\<close>, the values \<open>n_limits<scalar_t>::max()\<close> and
    \<open>n_limits<scalar_t>::min()\<close> of the header \<open>limits.cuh\<close>.

  The parameter \<open>dim\<close> and the loop counter \<open>id\<close> are written \<open>dim'\<close> and \<open>id'\<close>.
  A C \<open>int\<close> is an \<^typ>\<open>int\<close>; \<open>/\<close> and \<open>%\<close> on it truncate towards zero, which
  is \<open>sdiv\<close> and \<open>smod\<close>.  Its overflow is undefined, as is a division by zero: the
  theorems assume positive pooled extents and a positive channel count, with which no
  kernel divides an \<open>int\<close> by zero, and say nothing about overflow.  A pointer to a buffer
  is the function from element offsets (relative to the pointer) to the values stored
  there: the kernels index without any bounds check, and so does the model.

  A quotient of scalars by zero is \<open>0\<close> in HOL and a NaN or an infinity on the device.  The
  kernels divide by the clamped weight sum only, which is zero where every exponential
  of a window is: the numerator is then zero as well, and a theorem that holds there is
  about the model's quotient \<open>0 / 0 = 0\<close>.
\<close>

type_synonym scalar = real
type_synonym buffer = "int \<Rightarrow> scalar"

subsection \<open>Safe numeric primitives (lines 21--33)\<close>

definition sgn_scalar :: "scalar \<Rightarrow> scalar" where
  "sgn_scalar val = (if 0 < val then 1 else 0) - (if val < 0 then 1 else 0)"

definition clamp :: "scalar \<Rightarrow> scalar \<Rightarrow> scalar \<Rightarrow> scalar" where
  "clamp n lower upper =
     (let tmp = \<bar>n\<bar>;
          result = max lower (min tmp upper)
      in result * sgn_scalar n)"

subsection \<open>Forward kernels (lines 36--244)\<close>

text \<open>
  Each \<open>_cell\<close> function is the body of \<open>CUDA_1D_KERNEL_LOOP\<close> for one value of
  \<open>index\<close>; a \<open>for\<close> loop is a \<open>fold\<close> over its counter values and \<open>continue\<close>
  returns the loop state unchanged.  The helper definitions \<open>_pooled\<close>, \<open>_coords\<close>,
  \<open>_offset\<close> and \<open>_mask_sum\<close> name the parts of a body that the properties below
  speak about.
\<close>

definition SoftPool1dForward_pooled :: "int \<Rightarrow> int \<Rightarrow> int" where
  "SoftPool1dForward_pooled dim' stride_d = dim' sdiv stride_d"

definition SoftPool1dForward_coords :: "int \<Rightarrow> int \<Rightarrow> int \<Rightarrow> int \<Rightarrow> int \<times> int \<times> int" where
  "SoftPool1dForward_coords channels dim' stride_d index =
     (let pooled_dim = SoftPool1dForward_pooled dim' stride_d;
          pd = index smod pooled_dim;
          c = (index sdiv pooled_dim) smod channels;
          n = index sdiv pooled_dim sdiv channels
      in (n, c, pd))"

definition SoftPool1dForward_mask_sum ::
  "(scalar \<Rightarrow> scalar) \<Rightarrow> scalar \<Rightarrow> scalar \<Rightarrow> buffer \<Rightarrow> int \<Rightarrow> int \<Rightarrow> int \<Rightarrow> int \<Rightarrow> scalar" where
  "SoftPool1dForward_mask_sum ex upper lower offset_bottom_input dim' kernel_d stride_d pd =
     (let zero = 0;
          mask_sum = 0;
          mask_sum = fold (\<lambda>id' mask_sum.
            let d_offset = pd * stride_d + id' - kernel_d sdiv 2 in
            if d_offset \<ge> dim' \<or> d_offset < 0 then mask_sum
            else
              let offset = d_offset;
                  mask = ex (offset_bottom_input offset);
                  mask = clamp mask zero upper
              in mask_sum + mask) [0..kernel_d - 1] mask_sum
      in clamp mask_sum lower upper)"

definition SoftPool1dForward_cell ::
  "(scalar \<Rightarrow> scalar) \<Rightarrow> scalar \<Rightarrow> scalar \<Rightarrow> buffer \<Rightarrow> int \<Rightarrow> int \<Rightarrow> int \<Rightarrow> int \<Rightarrow> int \<Rightarrow>
   int \<Rightarrow> buffer \<Rightarrow> buffer" where
  "SoftPool1dForward_cell ex upper lower bottom_input batches channels dim' kernel_d stride_d
     index output_data =
     (case SoftPool1dForward_coords channels dim' stride_d index of (n, c, pd) \<Rightarrow>
      let offset = (n * channels + c) * dim';
          offset_bottom_input = (\<lambda>i. bottom_input (offset + i));
          output_data = output_data(index := 0);
          zero = 0;
          mask_sum = SoftPool1dForward_mask_sum ex upper lower offset_bottom_input
                       dim' kernel_d stride_d pd
      in fold (\<lambda>id' output_data.
            let d_offset = pd * stride_d + id' - kernel_d sdiv 2 in
            if d_offset \<ge> dim' \<or> d_offset < 0 then output_data
            else
              let offset = d_offset;
                  mask = ex (offset_bottom_input offset);
                  mask = clamp mask zero upper;
                  mask = mask / mask_sum;
                  mask = clamp mask zero upper;
                  weighted_inp = offset_bottom_input offset * mask;
                  weighted_inp = clamp weighted_inp zero upper
              in output_data(index := clamp (output_data index + weighted_inp) zero upper))
         [0..kernel_d - 1] output_data)"

text \<open>
  The grid-stride loop gives every index below \<open>nthreads\<close> to exactly one thread.  A
  forward thread writes \<open>output_data[index]\<close> only, so the model runs the indices in
  ascending order.
\<close>

definition SoftPool1dForward ::
  "(scalar \<Rightarrow> scalar) \<Rightarrow> scalar \<Rightarrow> scalar \<Rightarrow> int \<Rightarrow> buffer \<Rightarrow> int \<Rightarrow> int \<Rightarrow> int \<Rightarrow> int \<Rightarrow> int \<Rightarrow>
   buffer \<Rightarrow> buffer" where
  "SoftPool1dForward ex upper lower nthreads bottom_input batches channels dim' kernel_d stride_d
     output_data =
     fold (SoftPool1dForward_cell ex upper lower bottom_input batches channels dim'
             kernel_d stride_d) [0..nthreads - 1] output_data"

definition SoftPool2dForward_pooled :: "int \<Rightarrow> int \<Rightarrow> int \<Rightarrow> int \<Rightarrow> int \<times> int" where
  "SoftPool2dForward_pooled height width stride_h stride_w =
     (let pooled_height = height sdiv stride_h;
          pooled_width = width sdiv stride_w
      in (pooled_height, pooled_width))"

definition SoftPool2dForward_coords ::
  "int \<Rightarrow> int \<Rightarrow> int \<Rightarrow> int \<Rightarrow> int \<Rightarrow> int \<Rightarrow> int \<times> int \<times> int \<times> int" where
  "SoftPool2dForward_coords channels height width stride_h stride_w index =
     (case SoftPool2dForward_pooled height width stride_h stride_w of
        (pooled_height, pooled_width) \<Rightarrow>
      let pw = index smod pooled_width;
          ph = (index sdiv pooled_width) smod pooled_height;
          c = (index sdiv pooled_width sdiv pooled_height) smod channels;
          n = index sdiv pooled_width sdiv pooled_height sdiv channels
      in (n, c, ph, pw))"

definition SoftPool2dForward_mask_sum ::
  "(scalar \<Rightarrow> scalar) \<Rightarrow> scalar \<Rightarrow> scalar \<Rightarrow> buffer \<Rightarrow> int \<Rightarrow> int \<Rightarrow> int \<Rightarrow> int \<Rightarrow> int \<Rightarrow> int \<Rightarrow>
   int \<Rightarrow> int \<Rightarrow> scalar" where
  "SoftPool2dForward_mask_sum ex upper lower offset_bottom_input height width
     kernel_h kernel_w stride_h stride_w ph pw =
     (let zero = 0;
          mask_sum = 0;
          mask_sum = fold (\<lambda>iy mask_sum.
            let y_offset = ph * stride_h + iy - kernel_h sdiv 2 in
            if y_offset \<ge> height \<or> y_offset < 0 then mask_sum
            else fold (\<lambda>ix mask_sum.
              let x_offset = pw * stride_w + ix - kernel_w sdiv 2 in
              if x_offset \<ge> width \<or> x_offset < 0 then mask_sum
              else
                let offset = y_offset * width + x_offset;
                    mask = ex (offset_bottom_input offset);
                    mask = clamp mask zero upper
                in mask_sum + mask) [0..kernel_w - 1] mask_sum) [0..kernel_h - 1] mask_sum
      in clamp mask_sum lower upper)"

definition SoftPool2dForward_cell ::
  "(scalar \<Rightarrow> scalar) \<Rightarrow> scalar \<Rightarrow> scalar \<Rightarrow> buffer \<Rightarrow> int \<Rightarrow> int \<Rightarrow> int \<Rightarrow> int \<Rightarrow> int \<Rightarrow> int \<Rightarrow>
   int \<Rightarrow> int \<Rightarrow> int \<Rightarrow> buffer \<Rightarrow> buffer" where
  "SoftPool2dForward_cell ex upper lower bottom_input batches channels height width
     kernel_h kernel_w stride_h stride_w index output_data =
     (case SoftPool2dForward_coords channels height width stride_h stride_w index of
        (n, c, ph, pw) \<Rightarrow>
      let offset = (n * channels + c) * height * width;
          offset_bottom_input = (\<lambda>i. bottom_input (offset + i));
          output_data = output_data(index := 0);
          zero = 0;
          mask_sum = SoftPool2dForward_mask_sum ex upper lower offset_bottom_input
                       height width kernel_h kernel_w stride_h stride_w ph pw
      in fold (\<lambda>iy output_data.
            let y_offset = ph * stride_h + iy - kernel_h sdiv 2 in
            if y_offset \<ge> height \<or> y_offset < 0 then output_data
            else fold (\<lambda>ix output_data.
              let x_offset = pw * stride_w + ix - kernel_w sdiv 2 in
              if x_offset \<ge> width \<or> x_offset < 0 then output_data
              else
                let offset = y_offset * width + x_offset;
                    mask = ex (offset_bottom_input offset);
                    mask = clamp mask zero upper;
                    mask = mask / mask_sum;
                    mask = clamp mask zero upper;
                    weighted_inp = offset_bottom_input offset * mask;
                    weighted_inp = clamp weighted_inp zero upper
                in output_data(index := clamp (output_data index + weighted_inp) zero upper))
              [0..kernel_w - 1] output_data)
         [0..kernel_h - 1] output_data)"

definition SoftPool2dForward ::
  "(scalar \<Rightarrow> scalar) \<Rightarrow> scalar \<Rightarrow> scalar \<Rightarrow> int \<Rightarrow> buffer \<Rightarrow> int \<Rightarrow> int \<Rightarrow> int \<Rightarrow> int \<Rightarrow> int \<Rightarrow>
   int \<Rightarrow> int \<Rightarrow> int \<Rightarrow> buffer \<Rightarrow> buffer" where
  "SoftPool2dForward ex upper lower nthreads bottom_input batches channels height width
     kernel_h kernel_w stride_h stride_w output_data =
     fold (SoftPool2dForward_cell ex upper lower bottom_input batches channels height width
             kernel_h kernel_w stride_h stride_w) [0..nthreads - 1] output_data"

definition SoftPool3dForward_pooled ::
  "int \<Rightarrow> int \<Rightarrow> int \<Rightarrow> int \<Rightarrow> int \<Rightarrow> int \<Rightarrow> int \<times> int \<times> int" where
  "SoftPool3dForward_pooled depth height width stride_d stride_h stride_w =
     (let pooled_depth = depth sdiv stride_d;
          pooled_height = height sdiv stride_h;
          pooled_width = width sdiv stride_w
      in (pooled_depth, pooled_height, pooled_width))"

definition SoftPool3dForward_coords ::
  "int \<Rightarrow> int \<Rightarrow> int \<Rightarrow> int \<Rightarrow> int \<Rightarrow> int \<Rightarrow> int \<Rightarrow> int \<Rightarrow> int \<times> int \<times> int \<times> int \<times> int" where
  "SoftPool3dForward_coords channels depth height width stride_d stride_h stride_w index =
     (case SoftPool3dForward_pooled depth height width stride_d stride_h stride_w of
        (pooled_depth, pooled_height, pooled_width) \<Rightarrow>
      let pw = index smod pooled_width;
          ph = (index sdiv pooled_width) smod pooled_height;
          pd = (index sdiv pooled_width sdiv pooled_height) smod pooled_depth;
          c = (index sdiv pooled_width sdiv pooled_height sdiv pooled_depth) smod channels;
          n = index sdiv pooled_width sdiv pooled_height sdiv pooled_depth sdiv channels
      in (n, c, pd, ph, pw))"

definition SoftPool3dForward_offset :: "int \<Rightarrow> int \<Rightarrow> int \<Rightarrow> int \<Rightarrow> int \<Rightarrow> int" where
  "SoftPool3dForward_offset height width d_offset y_offset x_offset =
     d_offset * height + y_offset * width + x_offset"

definition SoftPool3dForward_mask_sum ::
  "(scalar \<Rightarrow> scalar) \<Rightarrow> scalar \<Rightarrow> scalar \<Rightarrow> buffer \<Rightarrow> int \<Rightarrow> int \<Rightarrow> int \<Rightarrow> int \<Rightarrow> int \<Rightarrow> int \<Rightarrow>
   int \<Rightarrow> int \<Rightarrow> int \<Rightarrow> int \<Rightarrow> int \<Rightarrow> int \<Rightarrow> scalar" where
  "SoftPool3dForward_mask_sum ex upper lower offset_bottom_input depth height width
     kernel_d kernel_h kernel_w stride_d stride_h stride_w pd ph pw =
     (let zero = 0;
          mask_sum = 0;
          mask_sum = fold (\<lambda>id' mask_sum.
            let d_offset = pd * stride_d + id' - kernel_d sdiv 2 in
            if d_offset \<ge> depth \<or> d_offset < 0 then mask_sum
            else fold (\<lambda>iy mask_sum.
              let y_offset = ph * stride_h + iy - kernel_h sdiv 2 in
              if y_offset \<ge> height \<or> y_offset < 0 then mask_sum
              else fold (\<lambda>ix mask_sum.
                let x_offset = pw * stride_w + ix - kernel_w sdiv 2 in
                if x_offset \<ge> width \<or> x_offset < 0 then mask_sum
                else
                  let offset = SoftPool3dForward_offset height width d_offset y_offset x_offset;
                      mask = ex (offset_bottom_input offset);
                      mask = clamp mask zero upper
                  in mask_sum + mask) [0..kernel_w - 1] mask_sum) [0..kernel_h - 1] mask_sum)
            [0..kernel_d - 1] mask_sum
      in clamp mask_sum lower upper)"

definition SoftPool3dForward_cell ::
  "(scalar \<Rightarrow> scalar) \<Rightarrow> scalar \<Rightarrow> scalar \<Rightarrow> buffer \<Rightarrow> int \<Rightarrow> int \<Rightarrow> int \<Rightarrow> int \<Rightarrow> int \<Rightarrow> int \<Rightarrow>
   int \<Rightarrow> int \<Rightarrow> int \<Rightarrow> int \<Rightarrow> int \<Rightarrow> int \<Rightarrow> buffer \<Rightarrow> buffer" where
  "SoftPool3dForward_cell ex upper lower bottom_input batches channels depth height width
     kernel_d kernel_h kernel_w stride_d stride_h stride_w index output_data =
     (case SoftPool3dForward_coords channels depth height width stride_d stride_h stride_w index of
        (n, c, pd, ph, pw) \<Rightarrow>
      let offset = (n * channels + c) * depth * height * width;
          offset_bottom_input = (\<lambda>i. bottom_input (offset + i));
          output_data = output_data(index := 0);
          zero = 0;
          mask_sum = SoftPool3dForward_mask_sum ex upper lower offset_bottom_input
                       depth height width kernel_d kernel_h kernel_w stride_d stride_h stride_w
                       pd ph pw
      in fold (\<lambda>id' output_data.
            let d_offset = pd * stride_d + id' - kernel_d sdiv 2 in
            if d_offset \<ge> depth \<or> d_offset < 0 then output_data
            else fold (\<lambda>iy output_data.
              let y_offset = ph * stride_h + iy - kernel_h sdiv 2 in
              if y_offset \<ge> height \<or> y_offset < 0 then output_data
              else fold (\<lambda>ix output_data.
                let x_offset = pw * stride_w + ix - kernel_w sdiv 2 in
                if x_offset \<ge> width \<or> x_offset < 0 then output_data
                else
                  let offset = SoftPool3dForward_offset height width d_offset y_offset x_offset;
                      mask = ex (offset_bottom_input offset);
                      mask = clamp mask zero upper;
                      mask = mask / mask_sum;
                      mask = clamp mask zero upper;
                      weighted_inp = offset_bottom_input offset * mask;
                      weighted_inp = clamp weighted_inp zero upper
                  in output_data(index := clamp (output_data index + weighted_inp) zero upper))
                [0..kernel_w - 1] output_data)
              [0..kernel_h - 1] output_data)
         [0..kernel_d - 1] output_data)"

definition SoftPool3dForward ::
  "(scalar \<Rightarrow> scalar) \<Rightarrow> scalar \<Rightarrow> scalar \<Rightarrow> int \<Rightarrow> buffer \<Rightarrow> int \<Rightarrow> int \<Rightarrow> int \<Rightarrow> int \<Rightarrow> int \<Rightarrow>
   int \<Rightarrow> int \<Rightarrow> int \<Rightarrow> int \<Rightarrow> int \<Rightarrow> int \<Rightarrow> buffer \<Rightarrow> buffer" where
  "SoftPool3dForward ex upper lower nthreads bottom_input batches channels depth height width
     kernel_d kernel_h kernel_w stride_d stride_h stride_w output_data =
     fold (SoftPool3dForward_cell ex upper lower bottom_input batches channels depth height width
             kernel_d kernel_h kernel_w stride_d stride_h stride_w) [0..nthreads - 1] output_data"

subsection \<open>Backward kernels (lines 338--557)\<close>

text \<open>
  \<open>atomicAdd(p, v)\<close> adds \<open>v\<close> to the cell \<open>p\<close> points to, as one indivisible step.  The
  model runs the threads one after the other, in ascending order of \<open>index\<close>; with the
  exact addition of the model every other order gives the same sums.
\<close>

definition SoftPool1dBackward_pooled :: "int \<Rightarrow> int \<Rightarrow> int" where
  "SoftPool1dBackward_pooled dim' stride_d = dim' sdiv stride_d"

definition SoftPool1dBackward_coords :: "int \<Rightarrow> int \<Rightarrow> int \<Rightarrow> int \<Rightarrow> int \<times> int \<times> int" where
  "SoftPool1dBackward_coords channels dim' stride_d index =
     (let pooled_dim = SoftPool1dBackward_pooled dim' stride_d;
          pd = index smod pooled_dim;
          c = (index sdiv pooled_dim) smod channels;
          n = index sdiv pooled_dim sdiv channels
      in (n, c, pd))"

definition SoftPool1dBackward_mask_sum ::
  "(scalar \<Rightarrow> scalar) \<Rightarrow> scalar \<Rightarrow> scalar \<Rightarrow> buffer \<Rightarrow> int \<Rightarrow> int \<Rightarrow> int \<Rightarrow> scalar" where
  "SoftPool1dBackward_mask_sum ex upper lower offset_data_input dim' kernel_d base_d =
     (let mask_sum = 0;
          zero = 0;
          mask_sum = fold (\<lambda>id' mask_sum.
            let d_offset = base_d + id' in
            if d_offset \<ge> dim' \<or> d_offset < 0 then mask_sum
            else
              let offset = d_offset;
                  mask = ex (offset_data_input offset);
                  mask = clamp mask zero upper
              in mask_sum + mask) [0..kernel_d - 1] mask_sum
      in clamp mask_sum lower upper)"

definition SoftPool1dBackward_cell ::
  "(scalar \<Rightarrow> scalar) \<Rightarrow> scalar \<Rightarrow> scalar \<Rightarrow> buffer \<Rightarrow> buffer \<Rightarrow> int \<Rightarrow> int \<Rightarrow> int \<Rightarrow> int \<Rightarrow>
   int \<Rightarrow> int \<Rightarrow> buffer \<Rightarrow> buffer" where
  "SoftPool1dBackward_cell ex upper lower diff_output data_input batches channels dim' kernel_d
     stride_d index diff_input =
     (case SoftPool1dBackward_coords channels dim' stride_d index of (n, c, pd) \<Rightarrow>
      let offset0 = (n * channels + c) * dim';
          offset_data_input = (\<lambda>i. data_input (offset0 + i));
          diff_output_index = diff_output index;
          base_d = pd * stride_d - kernel_d sdiv 2;
          zero = 0;
          mask_sum = SoftPool1dBackward_mask_sum ex upper lower offset_data_input
                       dim' kernel_d base_d
      in fold (\<lambda>id' diff_input.
            let d_offset = base_d + id' in
            if d_offset \<ge> dim' \<or> d_offset < 0 then diff_input
            else
              let offset = d_offset;
                  mask = ex (offset_data_input offset);
                  mask = clamp mask zero upper;
                  mask = mask / mask_sum;
                  mask = clamp mask zero upper;
                  weighted_grad = diff_output_index * mask;
                  weighted_grad = clamp weighted_grad zero upper
              in diff_input(offset0 + offset := diff_input (offset0 + offset) + weighted_grad))
         [0..kernel_d - 1] diff_input)"

definition SoftPool1dBackward ::
  "(scalar \<Rightarrow> scalar) \<Rightarrow> scalar \<Rightarrow> scalar \<Rightarrow> int \<Rightarrow> buffer \<Rightarrow> buffer \<Rightarrow> int \<Rightarrow> int \<Rightarrow> int \<Rightarrow>
   int \<Rightarrow> int \<Rightarrow> buffer \<Rightarrow> buffer" where
  "SoftPool1dBackward ex upper lower nthreads diff_output data_input batches channels dim'
     kernel_d stride_d diff_input =
     fold (SoftPool1dBackward_cell ex upper lower diff_output data_input batches channels dim'
             kernel_d stride_d) [0..nthreads - 1] diff_input"

definition SoftPool2dBackward_pooled :: "int \<Rightarrow> int \<Rightarrow> int \<Rightarrow> int \<Rightarrow> int \<times> int" where
  "SoftPool2dBackward_pooled height width stride_h stride_w =
     (let pooled_height = height sdiv stride_h;
          pooled_width = width sdiv stride_w
      in (pooled_height, pooled_width))"

definition SoftPool2dBackward_coords ::
  "int \<Rightarrow> int \<Rightarrow> int \<Rightarrow> int \<Rightarrow> int \<Rightarrow> int \<Rightarrow> int \<times> int \<times> int \<times> int" where
  "SoftPool2dBackward_coords channels height width stride_h stride_w index =
     (case SoftPool2dBackward_pooled height width stride_h stride_w of
        (pooled_height, pooled_width) \<Rightarrow>
      let pw = index smod pooled_width;
          ph = (index sdiv pooled_width) smod pooled_height;
          c = (index sdiv pooled_width sdiv pooled_height) smod channels;
          n = index sdiv pooled_width sdiv pooled_height sdiv channels
      in (n, c, ph, pw))"

definition SoftPool2dBackward_mask_sum ::
  "(scalar \<Rightarrow> scalar) \<Rightarrow> scalar \<Rightarrow> scalar \<Rightarrow> buffer \<Rightarrow> int \<Rightarrow> int \<Rightarrow> int \<Rightarrow> int \<Rightarrow> int \<Rightarrow> int \<Rightarrow>
   scalar" where
  "SoftPool2dBackward_mask_sum ex upper lower offset_data_input height width
     kernel_h kernel_w base_y base_x =
     (let mask_sum = 0;
          zero = 0;
          mask_sum = fold (\<lambda>iy mask_sum.
            let y_offset = base_y + iy in
            if y_offset \<ge> height \<or> y_offset < 0 then mask_sum
            else fold (\<lambda>ix mask_sum.
              let x_offset = base_x + ix in
              if x_offset \<ge> width \<or> x_offset < 0 then mask_sum
              else
                let offset = y_offset * width + x_offset;
                    mask = ex (offset_data_input offset);
                    mask = clamp mask zero upper
                in mask_sum + mask) [0..kernel_w - 1] mask_sum) [0..kernel_h - 1] mask_sum
      in clamp mask_sum lower upper)"

definition SoftPool2dBackward_cell ::
  "(scalar \<Rightarrow> scalar) \<Rightarrow> scalar \<Rightarrow> scalar \<Rightarrow> buffer \<Rightarrow> buffer \<Rightarrow> int \<Rightarrow> int \<Rightarrow> int \<Rightarrow> int \<Rightarrow>
   int \<Rightarrow> int \<Rightarrow> int \<Rightarrow> int \<Rightarrow> int \<Rightarrow> buffer \<Rightarrow> buffer" where
  "SoftPool2dBackward_cell ex upper lower diff_output data_input batches channels height width
     kernel_h kernel_w stride_h stride_w index diff_input =
     (case SoftPool2dBackward_coords channels height width stride_h stride_w index of
        (n, c, ph, pw) \<Rightarrow>
      let offset0 = (n * channels + c) * height * width;
          offset_data_input = (\<lambda>i. data_input (offset0 + i));
          diff_output_index = diff_output index;
          base_y = ph * stride_h - kernel_h sdiv 2;
          base_x = pw * stride_w - kernel_w sdiv 2;
          zero = 0;
          mask_sum = SoftPool2dBackward_mask_sum ex upper lower offset_data_input
                       height width kernel_h kernel_w base_y base_x
      in fold (\<lambda>iy diff_input.
            let y_offset = base_y + iy in
            if y_offset \<ge> height \<or> y_offset < 0 then diff_input
            else fold (\<lambda>ix diff_input.
              let x_offset = base_x + ix in
              if x_offset \<ge> width \<or> x_offset < 0 then diff_input
              else
                let offset = y_offset * width + x_offset;
                    mask = ex (offset_data_input offset);
                    mask = clamp mask zero upper;
                    mask = mask / mask_sum;
                    mask = clamp mask zero upper;
                    weighted_grad = diff_output_index * mask;
                    weighted_grad = clamp weighted_grad zero upper
                in diff_input(offset0 + offset := diff_input (offset0 + offset) + weighted_grad))
              [0..kernel_w - 1] diff_input)
         [0..kernel_h - 1] diff_input)"

definition SoftPool2dBackward ::
  "(scalar \<Rightarrow> scalar) \<Rightarrow> scalar \<Rightarrow> scalar \<Rightarrow> int \<Rightarrow> buffer \<Rightarrow> buffer \<Rightarrow> int \<Rightarrow> int \<Rightarrow> int \<Rightarrow>
   int \<Rightarrow> int \<Rightarrow> int \<Rightarrow> int \<Rightarrow> int \<Rightarrow> buffer \<Rightarrow> buffer" where
  "SoftPool2dBackward ex upper lower nthreads diff_output data_input batches channels height
     width kernel_h kernel_w stride_h stride_w diff_input =
     fold (SoftPool2dBackward_cell ex upper lower diff_output data_input batches channels height
             width kernel_h kernel_w stride_h stride_w) [0..nthreads - 1] diff_input"

definition SoftPool3dBackward_pooled ::
  "int \<Rightarrow> int \<Rightarrow> int \<Rightarrow> int \<Rightarrow> int \<Rightarrow> int \<Rightarrow> int \<times> int \<times> int" where
  "SoftPool3dBackward_pooled depth height width stride_d stride_h stride_w =
     (let pooled_depth = depth sdiv stride_d;
          pooled_height = width sdiv stride_h;
          pooled_width = width sdiv stride_w
      in (pooled_depth, pooled_height, pooled_width))"

definition SoftPool3dBackward_coords ::
  "int \<Rightarrow> int \<Rightarrow> int \<Rightarrow> int \<Rightarrow> int \<Rightarrow> int \<Rightarrow> int \<Rightarrow> int \<Rightarrow> int \<times> int \<times> int \<times> int \<times> int" where
  "SoftPool3dBackward_coords channels depth height width stride_d stride_h stride_w index =
     (case SoftPool3dBackward_pooled depth height width stride_d stride_h stride_w of
        (pooled_depth, pooled_height, pooled_width) \<Rightarrow>
      let pw = index smod pooled_width;
          ph = (index sdiv pooled_width) smod pooled_height;
          pd = (index sdiv pooled_width sdiv pooled_height) smod pooled_depth;
          c = (index sdiv pooled_width sdiv pooled_height sdiv pooled_depth) smod channels;
          n = index sdiv pooled_width sdiv pooled_height sdiv pooled_depth sdiv channels
      in (n, c, pd, ph, pw))"

definition SoftPool3dBackward_offset :: "int \<Rightarrow> int \<Rightarrow> int \<Rightarrow> int \<Rightarrow> int \<Rightarrow> int" where
  "SoftPool3dBackward_offset height width d_offset y_offset x_offset =
     d_offset * height + y_offset * width + x_offset"

definition SoftPool3dBackward_mask_sum ::
  "(scalar \<Rightarrow> scalar) \<Rightarrow> scalar \<Rightarrow> scalar \<Rightarrow> buffer \<Rightarrow> int \<Rightarrow> int \<Rightarrow> int \<Rightarrow> int \<Rightarrow> int \<Rightarrow> int \<Rightarrow>
   int \<Rightarrow> int \<Rightarrow> int \<Rightarrow> scalar" where
  "SoftPool3dBackward_mask_sum ex upper lower offset_data_input depth height width
     kernel_d kernel_h kernel_w base_d base_y base_x =
     (let mask_sum = 0;
          zero = 0;
          mask_sum = fold (\<lambda>id' mask_sum.
            let d_offset = base_d + id' in
            if d_offset \<ge> depth \<or> d_offset < 0 then mask_sum
            else fold (\<lambda>iy mask_sum.
              let y_offset = base_y + iy in
              if y_offset \<ge> height \<or> y_offset < 0 then mask_sum
              else fold (\<lambda>ix mask_sum.
                let x_offset = base_x + ix in
                if x_offset \<ge> width \<or> x_offset < 0 then mask_sum
                else
                  let offset = SoftPool3dBackward_offset height width d_offset y_offset x_offset;
                      mask = ex (offset_data_input offset);
                      mask = clamp mask zero upper
                  in mask_sum + mask) [0..kernel_w - 1] mask_sum) [0..kernel_h - 1] mask_sum)
            [0..kernel_d - 1] mask_sum
      in clamp mask_sum lower upper)"

definition SoftPool3dBackward_cell ::
  "(scalar \<Rightarrow> scalar) \<Rightarrow> scalar \<Rightarrow> scalar \<Rightarrow> buffer \<Rightarrow> buffer \<Rightarrow> int \<Rightarrow> int \<Rightarrow> int \<Rightarrow> int \<Rightarrow>
   int \<Rightarrow> int \<Rightarrow> int \<Rightarrow> int \<Rightarrow> int \<Rightarrow> int \<Rightarrow> int \<Rightarrow> int \<Rightarrow> buffer \<Rightarrow> buffer" where
  "SoftPool3dBackward_cell ex upper lower diff_output data_input batches channels depth height
     width kernel_d kernel_h kernel_w stride_d stride_h stride_w index diff_input =
     (case SoftPool3dBackward_coords channels depth height width stride_d stride_h stride_w index of
        (n, c, pd, ph, pw) \<Rightarrow>
      let offset0 = (n * channels + c) * depth * height * width;
          offset_data_input = (\<lambda>i. data_input (offset0 + i));
          diff_output_index = diff_output index;
          base_d = pd * stride_d - kernel_d sdiv 2;
          base_y = ph * stride_h - kernel_h sdiv 2;
          base_x = pw * stride_w - kernel_w sdiv 2;
          zero = 0;
          mask_sum = SoftPool3dBackward_mask_sum ex upper lower offset_data_input
                       depth height width kernel_d kernel_h kernel_w base_d base_y base_x
      in fold (\<lambda>id' diff_input.
            let d_offset = base_d + id' in
            if d_offset \<ge> depth \<or> d_offset < 0 then diff_input
            else fold (\<lambda>iy diff_input.
              let y_offset = base_y + iy in
              if y_offset \<ge> height \<or> y_offset < 0 then diff_input
              else fold (\<lambda>ix diff_input.
                let x_offset = base_x + ix in
                if x_offset \<ge> width \<or> x_offset < 0 then diff_input
                else
                  let offset = SoftPool3dBackward_offset height width d_offset y_offset x_offset;
                      mask = ex (offset_data_input offset);
                      mask = clamp mask zero upper;
                      mask = mask / mask_sum;
                      mask = clamp mask zero upper;
                      weighted_grad = diff_output_index * mask;
                      weighted_grad = clamp weighted_grad zero upper
                  in diff_input(offset0 + offset := diff_input (offset0 + offset) + weighted_grad))
                [0..kernel_w - 1] diff_input)
              [0..kernel_h - 1] diff_input)
         [0..kernel_d - 1] diff_input)"

definition SoftPool3dBackward ::
  "(scalar \<Rightarrow> scalar) \<Rightarrow> scalar \<Rightarrow> scalar \<Rightarrow> int \<Rightarrow> buffer \<Rightarrow> buffer \<Rightarrow> int \<Rightarrow> int \<Rightarrow> int \<Rightarrow>
   int \<Rightarrow> int \<Rightarrow> int \<Rightarrow> int \<Rightarrow> int \<Rightarrow> int \<Rightarrow> int \<Rightarrow> int \<Rightarrow> buffer \<Rightarrow> buffer" where
  "SoftPool3dBackward ex upper lower nthreads diff_output data_input batches channels depth
     height width kernel_d kernel_h kernel_w stride_d stride_h stride_w diff_input =
     fold (SoftPool3dBackward_cell ex upper lower diff_output data_input batches channels depth
             height width kernel_d kernel_h kernel_w stride_d stride_h stride_w)
       [0..nthreads - 1] diff_input"

subsection \<open>Launchers (lines 247--335 and 559--661)\<close>

text \<open>
  A launcher computes the number of threads and starts the kernel with it.  The C
  expression \<open>batches * dim/stride_d * channels\<close> associates to the left.  The check for a
  device fault after the launch is not modelled.
\<close>

definition SoftPool1dForwardLauncher ::
  "(scalar \<Rightarrow> scalar) \<Rightarrow> scalar \<Rightarrow> scalar \<Rightarrow> buffer \<Rightarrow> int \<Rightarrow> int \<Rightarrow> int \<Rightarrow> int \<Rightarrow> int \<Rightarrow>
   buffer \<Rightarrow> buffer" where
  "SoftPool1dForwardLauncher ex upper lower input batches channels dim' kernel_d stride_d output =
     (let output_size = ((batches * dim') sdiv stride_d) * channels
      in SoftPool1dForward ex upper lower output_size input batches channels dim' kernel_d
           stride_d output)"

definition SoftPool2dForwardLauncher ::
  "(scalar \<Rightarrow> scalar) \<Rightarrow> scalar \<Rightarrow> scalar \<Rightarrow> buffer \<Rightarrow> int \<Rightarrow> int \<Rightarrow> int \<Rightarrow> int \<Rightarrow> int \<Rightarrow>
   int \<Rightarrow> int \<Rightarrow> int \<Rightarrow> buffer \<Rightarrow> buffer" where
  "SoftPool2dForwardLauncher ex upper lower input batches channels height width
     kernel_h kernel_w stride_h stride_w output =
     (let output_size = ((((batches * height) sdiv stride_h) * width) sdiv stride_w) * channels
      in SoftPool2dForward ex upper lower output_size input batches channels height width
           kernel_h kernel_w stride_h stride_w output)"

definition SoftPool3dForwardLauncher ::
  "(scalar \<Rightarrow> scalar) \<Rightarrow> scalar \<Rightarrow> scalar \<Rightarrow> buffer \<Rightarrow> int \<Rightarrow> int \<Rightarrow> int \<Rightarrow> int \<Rightarrow> int \<Rightarrow>
   int \<Rightarrow> int \<Rightarrow> int \<Rightarrow> int \<Rightarrow> int \<Rightarrow> int \<Rightarrow> buffer \<Rightarrow> buffer" where
  "SoftPool3dForwardLauncher ex upper lower input batches channels depth height width
     kernel_d kernel_h kernel_w stride_d stride_h stride_w output =
     (let output_size =
            ((((((batches * depth) sdiv stride_d) * height) sdiv stride_h) * width) sdiv stride_w)
            * channels
      in SoftPool3dForward ex upper lower output_size input batches channels depth height width
           kernel_d kernel_h kernel_w stride_d stride_h stride_w output)"

definition SoftPool1dBackwardLauncher ::
  "(scalar \<Rightarrow> scalar) \<Rightarrow> scalar \<Rightarrow> scalar \<Rightarrow> buffer \<Rightarrow> buffer \<Rightarrow> int \<Rightarrow> int \<Rightarrow> int \<Rightarrow> int \<Rightarrow>
   int \<Rightarrow> buffer \<Rightarrow> buffer" where
  "SoftPool1dBackwardLauncher ex upper lower output_grad input batches channels dim' kernel_d
     stride_d input_grad =
     (let output_size = ((batches * dim') sdiv stride_d) * channels
      in SoftPool1dBackward ex upper lower output_size output_grad input batches channels dim'
           kernel_d stride_d input_grad)"

definition SoftPool2dBackwardLauncher ::
  "(scalar \<Rightarrow> scalar) \<Rightarrow> scalar \<Rightarrow> scalar \<Rightarrow> buffer \<Rightarrow> buffer \<Rightarrow> int \<Rightarrow> int \<Rightarrow> int \<Rightarrow> int \<Rightarrow>
   int \<Rightarrow> int \<Rightarrow> int \<Rightarrow> int \<Rightarrow> buffer \<Rightarrow> buffer" where
  "SoftPool2dBackwardLauncher ex upper lower output_grad input batches channels height width
     kernel_h kernel_w stride_h stride_w input_grad =
     (let output_size = ((((batches * height) sdiv stride_h) * width) sdiv stride_w) * channels
      in SoftPool2dBackward ex upper lower output_size output_grad input batches channels height
           width kernel_h kernel_w stride_h stride_w input_grad)"

definition SoftPool3dBackwardLauncher ::
  "(scalar \<Rightarrow> scalar) \<Rightarrow> scalar \<Rightarrow> scalar \<Rightarrow> buffer \<Rightarrow> buffer \<Rightarrow> int \<Rightarrow> int \<Rightarrow> int \<Rightarrow> int \<Rightarrow>
   int \<Rightarrow> int \<Rightarrow> int \<Rightarrow> int \<Rightarrow> int \<Rightarrow> int \<Rightarrow> int \<Rightarrow> buffer \<Rightarrow> buffer" where
  "SoftPool3dBackwardLauncher ex upper lower output_grad input batches channels depth height
     width kernel_d kernel_h kernel_w stride_d stride_h stride_w input_grad =
     (let output_size =
            ((((((batches * depth) sdiv stride_d) * height) sdiv stride_h) * width) sdiv stride_w)
            * channels
      in SoftPool3dBackward ex upper lower output_size output_grad input batches channels depth
           height width kernel_d kernel_h kernel_w stride_d stride_h stride_w input_grad)"

section \<open>The specification's notions\<close>

text \<open>
  The definitions of this section follow the words of the specification, not the code:
  the safe numeric primitives of its section 4.1, the window of section 4.2 and the
  two-pass reduction of section 4.3.  The theorems below compare them with the kernels.
\<close>

definition sign :: "scalar \<Rightarrow> scalar" where
  "sign x = (if x < 0 then - 1 else if x = 0 then 0 else 1)"

definition clamp_magnitude :: "scalar \<Rightarrow> scalar \<Rightarrow> scalar \<Rightarrow> scalar" where
  "clamp_magnitude x lower upper = sign x * max lower (min \<bar>x\<bar> upper)"

definition safe_exp :: "(scalar \<Rightarrow> scalar) \<Rightarrow> scalar \<Rightarrow> scalar \<Rightarrow> scalar" where
  "safe_exp ex upper x = clamp_magnitude (ex x) 0 upper"

text \<open>
  The valid candidate coordinates of one axis, in the order the loops visit them:
  \<open>po * stride + offset - kernel/2\<close> for \<open>offset\<close> in \<open>[0, kernel)\<close>, without those
  that are negative or at least the extent.
\<close>

definition window_axis :: "int \<Rightarrow> int \<Rightarrow> int \<Rightarrow> int \<Rightarrow> int list" where
  "window_axis ext ker str po =
     filter (\<lambda>d. \<not> (d \<ge> ext \<or> d < 0)) (map (\<lambda>i. po * str + i - ker sdiv 2) [0..ker - 1])"

definition window2d ::
  "int \<Rightarrow> int \<Rightarrow> int \<Rightarrow> int \<Rightarrow> int \<Rightarrow> int \<Rightarrow> int \<Rightarrow> int \<Rightarrow> (int \<times> int) list" where
  "window2d height width kernel_h kernel_w stride_h stride_w ph pw =
     List.product (window_axis height kernel_h stride_h ph) (window_axis width kernel_w stride_w pw)"

definition window3d ::
  "int \<Rightarrow> int \<Rightarrow> int \<Rightarrow> int \<Rightarrow> int \<Rightarrow> int \<Rightarrow> int \<Rightarrow> int \<Rightarrow> int \<Rightarrow> int \<Rightarrow> int \<Rightarrow> int \<Rightarrow>
   (int \<times> int \<times> int) list" where
  "window3d depth height width kernel_d kernel_h kernel_w stride_d stride_h stride_w pd ph pw =
     List.product (window_axis depth kernel_d stride_d pd)
       (List.product (window_axis height kernel_h stride_h ph)
                     (window_axis width kernel_w stride_w pw))"

text \<open>
  The reduction of a window whose valid cells hold the values \<open>xs\<close>: the clamped sum of
  the safe exponentials (steps 1 and 2), the clamped normalized weight of a value and
  the clamped running sum of the clamped weighted values (steps 3 and 4).
\<close>

definition weight_sum :: "(scalar \<Rightarrow> scalar) \<Rightarrow> scalar \<Rightarrow> scalar \<Rightarrow> scalar list \<Rightarrow> scalar" where
  "weight_sum ex upper lower xs =
     clamp_magnitude (sum_list (map (safe_exp ex upper) xs)) lower upper"

definition norm_weight ::
  "(scalar \<Rightarrow> scalar) \<Rightarrow> scalar \<Rightarrow> scalar \<Rightarrow> scalar list \<Rightarrow> scalar \<Rightarrow> scalar" where
  "norm_weight ex upper lower xs x =
     clamp_magnitude (safe_exp ex upper x / weight_sum ex upper lower xs) 0 upper"

definition soft_pool :: "(scalar \<Rightarrow> scalar) \<Rightarrow> scalar \<Rightarrow> scalar \<Rightarrow> scalar list \<Rightarrow> scalar" where
  "soft_pool ex upper lower xs =
     fold (\<lambda>x acc. clamp_magnitude
                     (acc + clamp_magnitude (norm_weight ex upper lower xs x * x) 0 upper) 0 upper)
       xs 0"

text \<open>The row-major offset of the cell \<open>(d, y, x)\<close> in a depth x height x width slice.\<close>

definition row_major3d :: "int \<Rightarrow> int \<Rightarrow> int \<Rightarrow> int \<Rightarrow> int \<Rightarrow> int" where
  "row_major3d height width d y x = ((d * height) + y) * width + x"

subsection \<open>Concrete inputs\<close>

text \<open>A buffer that holds the values \<open>xs\<close> from offset 0 on (and 0 elsewhere).\<close>

definition buffer_of :: "scalar list \<Rightarrow> buffer" where
  "buffer_of xs = (\<lambda>i. if 0 \<le> i \<and> i < int (length xs) then xs ! nat i else 0)"

text \<open>
  Modelled from the spec: \<open>n_limits\<close> of the header \<open>limits.cuh\<close>, which is not among
  the sources.  For \<open>float\<close> the max-representable and min-representable values are
  \<open>FLT_MAX\<close> and \<open>FLT_MIN\<close>, the names the kernels' comments use.
\<close>

definition float32_max :: scalar where
  "float32_max = (2 - 1 / 2 ^ 23) * 2 ^ 127"

definition float32_min :: scalar where
  "float32_min = 1 / 2 ^ 126"

text \<open>
  An exponential that underflows: \<open>float\<close> has no positive value below \<open>2 ^ - 149\<close>,
  so the device's \<open>exp\<close> returns 0 for every argument below about \<open>- 103.98\<close>.
\<close>

definition float32_exp :: "scalar \<Rightarrow> scalar" where
  "float32_exp x = (if x < - 104 then 0 else exp x)"

subsection \<open>Auxiliary notions of the proofs\<close>

text \<open>One round of the second pass of a forward kernel, on the value \<open>v\<close> of the visited cell.\<close>

definition fwd_step :: "(scalar \<Rightarrow> scalar) \<Rightarrow> scalar \<Rightarrow> scalar \<Rightarrow> scalar \<Rightarrow> scalar \<Rightarrow> scalar" where
  "fwd_step ex upper mask_sum v acc =
     clamp (acc + clamp (v * clamp (clamp (ex v) 0 upper / mask_sum) 0 upper) 0 upper) 0 upper"

text \<open>The value a forward kernel leaves in \<open>output_data[index]\<close>.\<close>

definition SoftPool1dForward_value ::
  "(scalar \<Rightarrow> scalar) \<Rightarrow> scalar \<Rightarrow> scalar \<Rightarrow> buffer \<Rightarrow> int \<Rightarrow> int \<Rightarrow> int \<Rightarrow> int \<Rightarrow> int \<Rightarrow> scalar" where
  "SoftPool1dForward_value ex upper lower bottom_input channels dim' kernel_d stride_d index =
     (case SoftPool1dForward_coords channels dim' stride_d index of (n, c, pd) \<Rightarrow>
        soft_pool ex upper lower
          (map (\<lambda>d. bottom_input ((n * channels + c) * dim' + d))
             (window_axis dim' kernel_d stride_d pd)))"

definition SoftPool2dForward_value ::
  "(scalar \<Rightarrow> scalar) \<Rightarrow> scalar \<Rightarrow> scalar \<Rightarrow> buffer \<Rightarrow> int \<Rightarrow> int \<Rightarrow> int \<Rightarrow> int \<Rightarrow> int \<Rightarrow> int \<Rightarrow>
   int \<Rightarrow> int \<Rightarrow> scalar" where
  "SoftPool2dForward_value ex upper lower bottom_input channels height width
     kernel_h kernel_w stride_h stride_w index =
     (case SoftPool2dForward_coords channels height width stride_h stride_w index of
        (n, c, ph, pw) \<Rightarrow>
        soft_pool ex upper lower
          (map (\<lambda>(y, x). bottom_input ((n * channels + c) * height * width + (y * width + x)))
             (window2d height width kernel_h kernel_w stride_h stride_w ph pw)))"

definition SoftPool3dForward_value ::
  "(scalar \<Rightarrow> scalar) \<Rightarrow> scalar \<Rightarrow> scalar \<Rightarrow> buffer \<Rightarrow> int \<Rightarrow> int \<Rightarrow> int \<Rightarrow> int \<Rightarrow> int \<Rightarrow> int \<Rightarrow>
   int \<Rightarrow> int \<Rightarrow> int \<Rightarrow> int \<Rightarrow> int \<Rightarrow> scalar" where
  "SoftPool3dForward_value ex upper lower bottom_input channels depth height width
     kernel_d kernel_h kernel_w stride_d stride_h stride_w index =
     (case SoftPool3dForward_coords channels depth height width stride_d stride_h stride_w index of
        (n, c, pd, ph, pw) \<Rightarrow>
        soft_pool ex upper lower
          (map (\<lambda>(d, y, x). bottom_input ((n * channels + c) * depth * height * width
                                  + SoftPool3dForward_offset height width d y x))
             (window3d depth height width kernel_d kernel_h kernel_w stride_d stride_h stride_w
                pd ph pw)))"

section \<open>Loops as folds\<close>

lemma fold_skip_filter:
  "fold (\<lambda>i acc. if skip (c i) then acc else h (c i) acc) xs acc
   = fold h (filter (\<lambda>d. \<not> skip d) (map c xs)) acc"
  by (induction xs arbitrary: acc) auto

lemma fold_nested_product:
  "fold (\<lambda>y acc. fold (\<lambda>x. h (y, x)) xs acc) ys acc = fold h (List.product ys xs) acc"
  by (induction ys arbitrary: acc) (auto simp: fold_map comp_def)

lemma fold2_skip_filter:
  "fold (\<lambda>iy s. if skipy (cy iy) then s
                  else fold (\<lambda>ix s. if skipx (cx ix) then s else h (cy iy, cx ix) s) xs s) ys s
   = fold h (List.product (filter (\<lambda>d. \<not> skipy d) (map cy ys))
                          (filter (\<lambda>d. \<not> skipx d) (map cx xs))) s"
proof -
  have inner: "\<And>y s. fold (\<lambda>ix s. if skipx (cx ix) then s else h (y, cx ix) s) xs s
      = fold (\<lambda>x. h (y, x)) (filter (\<lambda>d. \<not> skipx d) (map cx xs)) s"
    by (rule fold_skip_filter[where h="\<lambda>x. h (y, x)" for y])
  show ?thesis
    unfolding inner
    by (simp add: fold_skip_filter[where h="\<lambda>y s. fold (\<lambda>x. h (y, x)) zs s" for zs]
          fold_nested_product)
qed

lemma fold3_skip_filter:
  "fold (\<lambda>id s. if skipd (cd id) then s
           else fold (\<lambda>iy s. if skipy (cy iy) then s
                  else fold (\<lambda>ix s. if skipx (cx ix) then s else h (cd id, cy iy, cx ix) s) xs s)
                 ys s)
      ds s
   = fold h (List.product (filter (\<lambda>d. \<not> skipd d) (map cd ds))
              (List.product (filter (\<lambda>d. \<not> skipy d) (map cy ys))
                            (filter (\<lambda>d. \<not> skipx d) (map cx xs)))) s"
proof -
  have inner: "\<And>d s. fold (\<lambda>iy s. if skipy (cy iy) then s
                  else fold (\<lambda>ix s. if skipx (cx ix) then s else h (d, cy iy, cx ix) s) xs s) ys s
      = fold (\<lambda>yx. h (d, yx)) (List.product (filter (\<lambda>d. \<not> skipy d) (map cy ys))
                            (filter (\<lambda>d. \<not> skipx d) (map cx xs))) s"
    by (rule fold2_skip_filter[where h="\<lambda>yx. h (d, yx)" for d, simplified])
  show ?thesis
    unfolding inner
    by (simp add: fold_skip_filter[where h="\<lambda>y s. fold (\<lambda>x. h (y, x)) zs s" for zs]
          fold_nested_product)
qed

lemma fold_add_sum_list:
  "fold (\<lambda>x (acc::real). acc + f x) xs a = a + sum_list (map f xs)"
  by (induction xs arbitrary: a) auto

lemma fold_upd_index:
  "fold (\<lambda>w (out::buffer). out(index := g w (out index))) ws out
   = out(index := fold g ws (out index))"
  by (induction ws arbitrary: out) auto

lemma fold_cells:
  assumes "\<And>i (out::buffer). cell i out = out(i := V i)"
  shows "fold cell xs out = (\<lambda>i. if i \<in> set xs then V i else out i)"
  using assms by (induction xs arbitrary: out) (auto simp: fun_eq_iff)

section \<open>Index arithmetic\<close>

lemma sdiv_nonneg: "0 \<le> a \<Longrightarrow> 0 \<le> b \<Longrightarrow> a sdiv b = a div (b::int)"
  by (cases "a = 0"; cases "b = 0") (auto simp: signed_divide_int_def sgn_if)

lemma smod_nonneg: "0 \<le> a \<Longrightarrow> 0 \<le> b \<Longrightarrow> a smod b = a mod (b::int)"
  by (cases "a = 0"; cases "b = 0") (auto simp: signed_modulo_int_def sgn_if)

lemma divmod_compose:
  fixes q r p :: int
  assumes "0 \<le> q" "0 \<le> r" "r < p"
  shows "(q * p + r) sdiv p = q" "(q * p + r) smod p = r" "0 \<le> q * p + r"
proof -
  have p: "0 < p" using assms by linarith
  show nn: "0 \<le> q * p + r" using assms p by simp
  show "(q * p + r) sdiv p = q"
    using assms p nn by (simp add: sdiv_nonneg)
  show "(q * p + r) smod p = r"
    using assms p nn by (simp add: smod_nonneg)
qed

lemma SoftPool1dForward_coords_compose:
  assumes "0 \<le> n" "0 \<le> c" "c < channels" "0 \<le> pd" "pd < dim' sdiv stride_d"
  shows "SoftPool1dForward_coords channels dim' stride_d
           ((n * channels + c) * (dim' sdiv stride_d) + pd) = (n, c, pd)"
proof -
  have q: "0 \<le> n * channels + c" using assms by simp
  show ?thesis
    unfolding SoftPool1dForward_coords_def SoftPool1dForward_pooled_def Let_def
    using divmod_compose[OF q assms(4,5)] divmod_compose[OF assms(1,2,3)]
    by simp
qed

lemma SoftPool2dForward_coords_compose:
  assumes "0 \<le> n" "0 \<le> c" "c < channels" "0 \<le> ph" "ph < height sdiv stride_h"
    "0 \<le> pw" "pw < width sdiv stride_w"
  shows "SoftPool2dForward_coords channels height width stride_h stride_w
           (((n * channels + c) * (height sdiv stride_h) + ph) * (width sdiv stride_w) + pw)
         = (n, c, ph, pw)"
proof -
  have q: "0 \<le> n * channels + c" using assms by simp
  have q2: "0 \<le> (n * channels + c) * (height sdiv stride_h) + ph"
    using divmod_compose(3)[OF q assms(4,5)] .
  show ?thesis
    unfolding SoftPool2dForward_coords_def SoftPool2dForward_pooled_def Let_def prod.case
    using divmod_compose[OF q2 assms(6,7)] divmod_compose[OF q assms(4,5)]
      divmod_compose[OF assms(1,2,3)]
    by simp
qed



lemma window_axis_bounds: "d \<in> set (window_axis ext ker str po) \<Longrightarrow> 0 \<le> d \<and> d < ext"
  by (auto simp: window_axis_def)

lemma window_axis_candidate:
  "d \<in> set (window_axis ext ker str po)
   \<Longrightarrow> \<exists>i. 0 \<le> i \<and> i < ker \<and> d = po * str + i - ker sdiv 2 \<and> 0 \<le> d \<and> d < ext"
  by (auto simp: window_axis_def)

section \<open>The forward kernels compute the two-pass reduction\<close>

lemma clamp_eq_clamp_magnitude: "clamp n lower upper = clamp_magnitude n lower upper"
  by (simp add: clamp_def clamp_magnitude_def sgn_scalar_def sign_def Let_def)

lemma fwd_step_soft_pool:
  "fold (fwd_step ex upper (weight_sum ex upper lower xs)) xs 0 = soft_pool ex upper lower xs"
  unfolding soft_pool_def fwd_step_def norm_weight_def safe_exp_def
  by (simp add: clamp_eq_clamp_magnitude mult.commute)

lemma fold_fwd_step_soft_pool:
  "fold (\<lambda>w. fwd_step ex upper (weight_sum ex upper lower (map f ws)) (f w)) ws 0
   = soft_pool ex upper lower (map f ws)"
  using fwd_step_soft_pool[of ex upper lower "map f ws"] by (simp add: fold_map comp_def)

lemma SoftPool1dForward_mask_sum_eq:
  "SoftPool1dForward_mask_sum ex upper lower inp dim' kernel_d stride_d pd
   = weight_sum ex upper lower (map inp (window_axis dim' kernel_d stride_d pd))"
proof -
  have "fold (\<lambda>i acc. if (pd * stride_d + i - kernel_d sdiv 2 \<ge> dim'
                          \<or> pd * stride_d + i - kernel_d sdiv 2 < 0) then acc
                       else acc + clamp (ex (inp (pd * stride_d + i - kernel_d sdiv 2))) 0 upper)
          [0..kernel_d - 1] 0
        = fold (\<lambda>d acc. acc + clamp (ex (inp d)) 0 upper) (window_axis dim' kernel_d stride_d pd) 0"
    unfolding window_axis_def
    by (rule fold_skip_filter[where skip="\<lambda>d. d \<ge> dim' \<or> d < 0"
          and c="\<lambda>i. pd * stride_d + i - kernel_d sdiv 2"
          and h="\<lambda>d acc. acc + clamp (ex (inp d)) 0 upper"])
  then show ?thesis
    unfolding SoftPool1dForward_mask_sum_def Let_def weight_sum_def
    by (simp add: fold_add_sum_list clamp_eq_clamp_magnitude safe_exp_def comp_def)
qed

lemma SoftPool1dForward_cell_soft_pool:
  "SoftPool1dForward_cell ex upper lower bottom_input batches channels dim' kernel_d stride_d
     index output_data
   = output_data(index :=
       SoftPool1dForward_value ex upper lower bottom_input channels dim' kernel_d stride_d index)"
proof -
  obtain n c pd where co: "SoftPool1dForward_coords channels dim' stride_d index = (n, c, pd)"
    by (cases "SoftPool1dForward_coords channels dim' stride_d index") auto
  define off where "off = (n * channels + c) * dim'"
  define f where "f = (\<lambda>d. bottom_input (off + d))"
  define ws where "ws = window_axis dim' kernel_d stride_d pd"
  define ms where "ms = SoftPool1dForward_mask_sum ex upper lower (\<lambda>i. bottom_input (off + i))
                          dim' kernel_d stride_d pd"
  have ms: "ms = weight_sum ex upper lower (map f ws)"
    unfolding ms_def ws_def f_def SoftPool1dForward_mask_sum_eq ..
  note L = fold_skip_filter[where skip="\<lambda>d. d \<ge> dim' \<or> d < 0"
      and c="\<lambda>i. pd * stride_d + i - kernel_d sdiv 2"
      and h="\<lambda>w (out::buffer). out(index := fwd_step ex upper ms (f w) (out index))"
      and xs="[0..kernel_d - 1]" and acc="output_data(index := 0)"]
  have "SoftPool1dForward_cell ex upper lower bottom_input batches channels dim' kernel_d stride_d
          index output_data
        = fold (\<lambda>w (out::buffer). out(index := fwd_step ex upper ms (f w) (out index))) ws
            (output_data(index := 0))"
    unfolding SoftPool1dForward_cell_def co Let_def prod.case
      off_def[symmetric] ms_def[symmetric] ws_def window_axis_def L[symmetric]
    by (simp add: f_def fwd_step_def mult.commute cong: if_cong)
  also have "\<dots> = output_data(index := fold (\<lambda>w. fwd_step ex upper ms (f w)) ws 0)"
    using fold_upd_index[where g="\<lambda>w. fwd_step ex upper ms (f w)" and ws=ws and index=index
        and out="output_data(index := 0)"] by simp
  also have "\<dots> = output_data(index := soft_pool ex upper lower (map f ws))"
    unfolding ms by (simp add: fold_fwd_step_soft_pool)
  finally show ?thesis
    by (simp add: SoftPool1dForward_value_def co f_def ws_def off_def)
qed

lemma SoftPool2dForward_mask_sum_eq:
  "SoftPool2dForward_mask_sum ex upper lower inp height width kernel_h kernel_w stride_h stride_w
     ph pw
   = weight_sum ex upper lower (map (\<lambda>(y, x). inp (y * width + x))
       (window2d height width kernel_h kernel_w stride_h stride_w ph pw))"
proof -
  note L = fold2_skip_filter[where skipy="\<lambda>d. d \<ge> height \<or> d < 0"
      and cy="\<lambda>i. ph * stride_h + i - kernel_h sdiv 2"
      and skipx="\<lambda>d. d \<ge> width \<or> d < 0"
      and cx="\<lambda>i. pw * stride_w + i - kernel_w sdiv 2"
      and h="\<lambda>(y, x) acc. acc + clamp (ex (inp (y * width + x))) 0 upper"
      and xs="[0..kernel_w - 1]" and ys="[0..kernel_h - 1]" and s=0]
  have "fold (\<lambda>(y, x) acc. acc + clamp (ex (inp (y * width + x))) 0 upper) ws 0
        = sum_list (map (safe_exp ex upper) (map (\<lambda>(y, x). inp (y * width + x)) ws))" for ws
    using fold_add_sum_list[where f="\<lambda>(y, x). clamp (ex (inp (y * width + x))) 0 upper"
        and a=0 and xs=ws]
    by (simp add: case_prod_unfold comp_def safe_exp_def clamp_eq_clamp_magnitude)
  then show ?thesis
    unfolding SoftPool2dForward_mask_sum_def Let_def weight_sum_def window2d_def window_axis_def
    using L by (simp add: clamp_eq_clamp_magnitude cong: if_cong)
qed

lemma SoftPool2dForward_cell_soft_pool:
  "SoftPool2dForward_cell ex upper lower bottom_input batches channels height width
     kernel_h kernel_w stride_h stride_w index output_data
   = output_data(index :=
       SoftPool2dForward_value ex upper lower bottom_input channels height width
         kernel_h kernel_w stride_h stride_w index)"
proof -
  obtain n c ph pw where
    co: "SoftPool2dForward_coords channels height width stride_h stride_w index = (n, c, ph, pw)"
    by (cases "SoftPool2dForward_coords channels height width stride_h stride_w index") auto
  define off where "off = (n * channels + c) * height * width"
  define f where "f = (\<lambda>(y, x). bottom_input (off + (y * width + x)))"
  define ws where "ws = window2d height width kernel_h kernel_w stride_h stride_w ph pw"
  define ms where "ms = SoftPool2dForward_mask_sum ex upper lower (\<lambda>i. bottom_input (off + i))
                       height width kernel_h kernel_w stride_h stride_w ph pw"
  have ms: "ms = weight_sum ex upper lower (map f ws)"
    unfolding ms_def ws_def f_def SoftPool2dForward_mask_sum_eq ..
  note L = fold2_skip_filter[where skipy="\<lambda>d. d \<ge> height \<or> d < 0"
      and cy="\<lambda>i. ph * stride_h + i - kernel_h sdiv 2"
      and skipx="\<lambda>d. d \<ge> width \<or> d < 0"
      and cx="\<lambda>i. pw * stride_w + i - kernel_w sdiv 2"
      and h="\<lambda>w (out::buffer). out(index := fwd_step ex upper ms (f w) (out index))"
      and xs="[0..kernel_w - 1]" and ys="[0..kernel_h - 1]" and s="output_data(index := 0)"]
  have "SoftPool2dForward_cell ex upper lower bottom_input batches channels height width
     kernel_h kernel_w stride_h stride_w index output_data
     = fold (\<lambda>w (out::buffer). out(index := fwd_step ex upper ms (f w) (out index))) ws
         (output_data(index := 0))"
    unfolding SoftPool2dForward_cell_def co Let_def prod.case
      off_def[symmetric] ms_def[symmetric] ws_def window2d_def window_axis_def L[symmetric]
    by (simp add: f_def fwd_step_def mult.commute cong: if_cong)
  also have "\<dots> = output_data(index := fold (\<lambda>w. fwd_step ex upper ms (f w)) ws 0)"
    using fold_upd_index[where g="\<lambda>w. fwd_step ex upper ms (f w)" and ws=ws and index=index
        and out="output_data(index := 0)"] by simp
  also have "\<dots> = output_data(index := soft_pool ex upper lower (map f ws))"
    unfolding ms by (simp add: fold_fwd_step_soft_pool)
  finally show ?thesis
    by (simp add: SoftPool2dForward_value_def co f_def ws_def off_def)
qed

lemma SoftPool3dForward_mask_sum_eq:
  "SoftPool3dForward_mask_sum ex upper lower inp depth height width kernel_d kernel_h kernel_w
     stride_d stride_h stride_w pd ph pw
   = weight_sum ex upper lower
       (map (\<lambda>(d, y, x). inp (SoftPool3dForward_offset height width d y x))
          (window3d depth height width kernel_d kernel_h kernel_w stride_d stride_h stride_w
             pd ph pw))"
proof -
  note L = fold3_skip_filter[where skipd="\<lambda>d. d \<ge> depth \<or> d < 0"
      and cd="\<lambda>i. pd * stride_d + i - kernel_d sdiv 2"
      and skipy="\<lambda>d. d \<ge> height \<or> d < 0"
      and cy="\<lambda>i. ph * stride_h + i - kernel_h sdiv 2"
      and skipx="\<lambda>d. d \<ge> width \<or> d < 0"
      and cx="\<lambda>i. pw * stride_w + i - kernel_w sdiv 2"
      and h="\<lambda>(d, y, x) acc.
               acc + clamp (ex (inp (SoftPool3dForward_offset height width d y x))) 0 upper"
      and xs="[0..kernel_w - 1]" and ys="[0..kernel_h - 1]" and ds="[0..kernel_d - 1]" and s=0]
  have "fold (\<lambda>(d, y, x) acc.
                acc + clamp (ex (inp (SoftPool3dForward_offset height width d y x))) 0 upper) ws 0
        = sum_list (map (safe_exp ex upper)
            (map (\<lambda>(d, y, x). inp (SoftPool3dForward_offset height width d y x)) ws))" for ws
    using fold_add_sum_list[where
        f="\<lambda>(d, y, x). clamp (ex (inp (SoftPool3dForward_offset height width d y x))) 0 upper"
        and a=0 and xs=ws]
    by (simp add: case_prod_unfold comp_def safe_exp_def clamp_eq_clamp_magnitude)
  then show ?thesis
    unfolding SoftPool3dForward_mask_sum_def Let_def weight_sum_def window3d_def window_axis_def
    using L by (simp add: clamp_eq_clamp_magnitude cong: if_cong)
qed

lemma SoftPool3dForward_cell_soft_pool:
  "SoftPool3dForward_cell ex upper lower bottom_input batches channels depth height width
     kernel_d kernel_h kernel_w stride_d stride_h stride_w index output_data
   = output_data(index :=
       SoftPool3dForward_value ex upper lower bottom_input channels depth height width
         kernel_d kernel_h kernel_w stride_d stride_h stride_w index)"
proof -
  obtain n c pd ph pw where
    co: "SoftPool3dForward_coords channels depth height width stride_d stride_h stride_w index
         = (n, c, pd, ph, pw)"
    by (cases "SoftPool3dForward_coords channels depth height width stride_d stride_h stride_w index")
      auto
  define off where "off = (n * channels + c) * depth * height * width"
  define f where
    "f = (\<lambda>(d, y, x). bottom_input (off + SoftPool3dForward_offset height width d y x))"
  define ws where "ws = window3d depth height width kernel_d kernel_h kernel_w
                          stride_d stride_h stride_w pd ph pw"
  define ms where "ms = SoftPool3dForward_mask_sum ex upper lower (\<lambda>i. bottom_input (off + i))
                       depth height width kernel_d kernel_h kernel_w stride_d stride_h stride_w
                       pd ph pw"
  have ms: "ms = weight_sum ex upper lower (map f ws)"
    unfolding ms_def ws_def f_def SoftPool3dForward_mask_sum_eq ..
  note L = fold3_skip_filter[where skipd="\<lambda>d. d \<ge> depth \<or> d < 0"
      and cd="\<lambda>i. pd * stride_d + i - kernel_d sdiv 2"
      and skipy="\<lambda>d. d \<ge> height \<or> d < 0"
      and cy="\<lambda>i. ph * stride_h + i - kernel_h sdiv 2"
      and skipx="\<lambda>d. d \<ge> width \<or> d < 0"
      and cx="\<lambda>i. pw * stride_w + i - kernel_w sdiv 2"
      and h="\<lambda>w (out::buffer). out(index := fwd_step ex upper ms (f w) (out index))"
      and xs="[0..kernel_w - 1]" and ys="[0..kernel_h - 1]" and ds="[0..kernel_d - 1]"
      and s="output_data(index := 0)"]
  have "SoftPool3dForward_cell ex upper lower bottom_input batches channels depth height width
     kernel_d kernel_h kernel_w stride_d stride_h stride_w index output_data
     = fold (\<lambda>w (out::buffer). out(index := fwd_step ex upper ms (f w) (out index))) ws
         (output_data(index := 0))"
    unfolding SoftPool3dForward_cell_def co Let_def prod.case
      off_def[symmetric] ms_def[symmetric] ws_def window3d_def window_axis_def L[symmetric]
    by (simp add: f_def fwd_step_def mult.commute cong: if_cong)
  also have "\<dots> = output_data(index := fold (\<lambda>w. fwd_step ex upper ms (f w)) ws 0)"
    using fold_upd_index[where g="\<lambda>w. fwd_step ex upper ms (f w)" and ws=ws and index=index
        and out="output_data(index := 0)"] by simp
  also have "\<dots> = output_data(index := soft_pool ex upper lower (map f ws))"
    unfolding ms by (simp add: fold_fwd_step_soft_pool)
  finally show ?thesis
    by (simp add: SoftPool3dForward_value_def co f_def ws_def off_def)
qed

lemma SoftPool1dForward_eq:
  "SoftPool1dForward ex upper lower nthreads bottom_input batches channels dim' kernel_d stride_d
     output_data
   = (\<lambda>i. if 0 \<le> i \<and> i < nthreads
           then SoftPool1dForward_value ex upper lower bottom_input channels dim' kernel_d
                  stride_d i
           else output_data i)"
  unfolding SoftPool1dForward_def
  by (subst fold_cells[where V="SoftPool1dForward_value ex upper lower bottom_input channels dim'
                                  kernel_d stride_d"])
     (auto simp: SoftPool1dForward_cell_soft_pool)

lemma SoftPool2dForward_eq:
  "SoftPool2dForward ex upper lower nthreads bottom_input batches channels height width
     kernel_h kernel_w stride_h stride_w output_data
   = (\<lambda>i. if 0 \<le> i \<and> i < nthreads
           then SoftPool2dForward_value ex upper lower bottom_input channels height width
                  kernel_h kernel_w stride_h stride_w i
           else output_data i)"
  unfolding SoftPool2dForward_def
  by (subst fold_cells[where V="SoftPool2dForward_value ex upper lower bottom_input channels
                                  height width kernel_h kernel_w stride_h stride_w"])
     (auto simp: SoftPool2dForward_cell_soft_pool)

lemma SoftPool3dForward_eq:
  "SoftPool3dForward ex upper lower nthreads bottom_input batches channels depth height width
     kernel_d kernel_h kernel_w stride_d stride_h stride_w output_data
   = (\<lambda>i. if 0 \<le> i \<and> i < nthreads
           then SoftPool3dForward_value ex upper lower bottom_input channels depth height width
                  kernel_d kernel_h kernel_w stride_d stride_h stride_w i
           else output_data i)"
  unfolding SoftPool3dForward_def
  by (subst fold_cells[where V="SoftPool3dForward_value ex upper lower bottom_input channels
                                  depth height width kernel_d kernel_h kernel_w
                                  stride_d stride_h stride_w"])
     (auto simp: SoftPool3dForward_cell_soft_pool)

section \<open>Bounds and exact values of the reduction\<close>

lemma clamp_magnitude_id:
  "0 \<le> lower \<Longrightarrow> lower \<le> \<bar>x\<bar> \<Longrightarrow> \<bar>x\<bar> \<le> upper \<Longrightarrow> clamp_magnitude x lower upper = x"
  by (auto simp: clamp_magnitude_def sign_def)


lemma clamp_magnitude_zero: "clamp_magnitude 0 lower upper = 0"
  by (simp add: clamp_magnitude_def sign_def)

lemma fold_weighted_exact:
  assumes "0 \<le> upper" "0 \<le> A" "\<bar>acc\<bar> \<le> A * upper"
    and "\<forall>x\<in>set ys. 0 \<le> W x \<and> \<bar>x\<bar> \<le> upper"
    and "A + sum_list (map W ys) \<le> 1"
  shows "fold (\<lambda>x acc. clamp_magnitude (acc + clamp_magnitude (W x * x) 0 upper) 0 upper) ys acc
         = acc + sum_list (map (\<lambda>x. W x * x) ys)"
  using assms
proof (induction ys arbitrary: acc A)
  case Nil
  then show ?case by simp
next
  case (Cons y ys)
  have W: "0 \<le> W y" and y: "\<bar>y\<bar> \<le> upper" using Cons.prems by auto
  have rest: "0 \<le> sum_list (map W ys)"
    using Cons.prems(4) by (intro sum_list_nonneg) auto
  have W1: "A + W y \<le> 1" using Cons.prems(5) rest by simp
  have Wy: "\<bar>W y * y\<bar> \<le> W y * upper"
    using W y by (simp add: abs_mult mult_left_mono)
  have "W y * upper \<le> 1 * upper"
    using W1 Cons.prems(1,2) by (intro mult_right_mono) auto
  then have in1: "clamp_magnitude (W y * y) 0 upper = W y * y"
    using Wy by (intro clamp_magnitude_id) auto
  have acc': "\<bar>acc + W y * y\<bar> \<le> (A + W y) * upper"
    using Cons.prems(3) Wy by (simp add: algebra_simps)
  have "(A + W y) * upper \<le> 1 * upper"
    using W1 Cons.prems(1) by (intro mult_right_mono) auto
  then have in2: "clamp_magnitude (acc + W y * y) 0 upper = acc + W y * y"
    using acc' by (intro clamp_magnitude_id) auto
  have "fold (\<lambda>x acc. clamp_magnitude (acc + clamp_magnitude (W x * x) 0 upper) 0 upper) ys
          (acc + W y * y)
        = (acc + W y * y) + sum_list (map (\<lambda>x. W x * x) ys)"
    using Cons.prems W acc' by (intro Cons.IH[where A="A + W y"]) (auto simp: add.assoc)
  then show ?case by (simp add: in1 in2)
qed

lemma sum_list_map_divide:
  "sum_list (map (\<lambda>x. f x / (c::real)) xs) = sum_list (map f xs) / c"
  by (induction xs) (auto simp: add_divide_distrib)

lemma soft_pool_exact:
  assumes "0 < lower" "1 \<le> upper"
    and "\<forall>x\<in>set xs. 0 \<le> ex x \<and> \<bar>x\<bar> \<le> upper"
    and "lower \<le> sum_list (map ex xs)" "sum_list (map ex xs) \<le> upper"
  shows "weight_sum ex upper lower xs = sum_list (map ex xs)"
    and "\<forall>x\<in>set xs. norm_weight ex upper lower xs x = ex x / sum_list (map ex xs)"
    and "soft_pool ex upper lower xs
         = sum_list (map (\<lambda>x. ex x / sum_list (map ex xs) * x) xs)"
proof -
  define S where "S = sum_list (map ex xs)"
  have S: "0 < S" "lower \<le> S" "S \<le> upper" using assms by (auto simp: S_def)
  have le: "ex x \<le> S" if "x \<in> set xs" for x
    unfolding S_def using that assms(3) by (intro member_le_sum_list) auto
  have se: "safe_exp ex upper x = ex x" if "x \<in> set xs" for x
    unfolding safe_exp_def using that assms(3) le[OF that] S
    by (intro clamp_magnitude_id) auto
  have mp: "map (safe_exp ex upper) xs = map ex xs"
    using se by (intro map_cong) auto
  have "clamp_magnitude S lower upper = S"
    using S assms(1) by (intro clamp_magnitude_id) auto
  then show ws: "weight_sum ex upper lower xs = sum_list (map ex xs)"
    unfolding weight_sum_def mp S_def .
  show nw: "\<forall>x\<in>set xs. norm_weight ex upper lower xs x = ex x / sum_list (map ex xs)"
  proof
    fix x assume x: "x \<in> set xs"
    have "0 \<le> ex x / S" "ex x / S \<le> 1"
      using le[OF x] assms(3) x S by (auto simp: divide_le_eq)
    then have "clamp_magnitude (ex x / S) 0 upper = ex x / S"
      using assms(2) by (intro clamp_magnitude_id) auto
    then show "norm_weight ex upper lower xs x = ex x / sum_list (map ex xs)"
      unfolding norm_weight_def ws se[OF x] S_def .
  qed
  have sumW: "sum_list (map (\<lambda>x. ex x / S) xs) = 1"
    using S by (simp add: sum_list_map_divide S_def)
  have "fold (\<lambda>x acc. clamp_magnitude (acc + clamp_magnitude (ex x / S * x) 0 upper) 0 upper) xs 0
        = 0 + sum_list (map (\<lambda>x. ex x / S * x) xs)"
    using assms(2,3) S sumW
    by (intro fold_weighted_exact[where A=0 and W="\<lambda>x. ex x / S"]) auto
  moreover have "fold (\<lambda>x acc. clamp_magnitude
                     (acc + clamp_magnitude (norm_weight ex upper lower xs x * x) 0 upper) 0 upper) xs 0
      = fold (\<lambda>x acc. clamp_magnitude (acc + clamp_magnitude (ex x / S * x) 0 upper) 0 upper) xs 0"
    using nw by (intro fold_cong) (auto simp: S_def)
  ultimately show "soft_pool ex upper lower xs
         = sum_list (map (\<lambda>x. ex x / sum_list (map ex xs) * x) xs)"
    by (simp add: soft_pool_def S_def)
qed

lemma soft_pool_constant:
  assumes "0 < lower" "1 \<le> upper" "\<bar>v\<bar> \<le> upper"
    and "\<forall>x\<in>set xs. x = v"
    and "lower \<le> real (length xs) * ex v" "real (length xs) * ex v \<le> upper"
  shows "norm_weight ex upper lower xs v = 1 / real (length xs)"
    and "soft_pool ex upper lower xs = v"
proof -
  have xs: "xs = replicate (length xs) v"
    using assms(4) by (simp add: replicate_length_same)
  define k where "k = length xs"
  have S: "sum_list (map ex xs) = real k * ex v"
    by (subst xs) (simp add: k_def sum_list_replicate)
  have pos: "0 < real k * ex v" using assms(1,5) by (simp add: k_def)
  then have k: "0 < k" and e: "0 < ex v"
    by (auto simp: zero_less_mult_iff k_def intro: Nat.gr0I)
  have v: "v \<in> set xs" using k xs by (metis k_def length_greater_0_conv list.set_intros(1) assms(4) hd_in_set)
  have hyp: "\<forall>x\<in>set xs. 0 \<le> ex x \<and> \<bar>x\<bar> \<le> upper"
    using assms(3,4) e by auto
  note E = soft_pool_exact[OF assms(1,2) hyp, unfolded S, OF assms(5,6)[folded k_def]]
  show "norm_weight ex upper lower xs v = 1 / real (length xs)"
    using E(2) v e k by (simp add: k_def)
  have "sum_list (map (\<lambda>x. ex x / (real k * ex v) * x) xs)
        = sum_list (map (\<lambda>x. v / real k) xs)"
    using assms(4) e by (intro arg_cong[where f=sum_list] map_cong) auto
  also have "\<dots> = v"
    using k by (subst xs) (simp add: sum_list_replicate k_def)
  finally show "soft_pool ex upper lower xs = v"
    using E(3) by simp
qed






lemma float32_limits: "0 < float32_min" "float32_min \<le> 1" "1 \<le> float32_max" "1000 \<le> float32_max"
  by (simp_all add: float32_min_def float32_max_def)

lemma exp_1_lower: "(2704 / 1000 :: real) < exp 1"
proof -
  have "(129 / 128 :: real) \<le> exp (1 / 128)"
    using exp_ge_add_one_self[of "1 / 128 :: real"] by simp
  then have "(129 / 128 :: real) ^ 128 \<le> exp (1 / 128) ^ 128"
    by (intro power_mono) auto
  also have "exp (1 / 128 :: real) ^ 128 = exp 1"
    using exp_of_nat_mult[of 128 "1 / 128 :: real", symmetric] by simp
  finally show ?thesis
    by (simp add: power_divide)
qed

lemma exp_1_upper: "exp 1 < (2730 / 1000 :: real)"
proof -
  have "(127 / 128 :: real) \<le> exp (- (1 / 128))"
    using exp_ge_add_one_self[of "- (1 / 128) :: real"] by simp
  then have "(127 / 128 :: real) ^ 128 \<le> exp (- (1 / 128)) ^ 128"
    by (intro power_mono) auto
  also have "exp (- (1 / 128) :: real) ^ 128 = exp (- 1)"
    using exp_of_nat_mult[of 128 "- (1 / 128) :: real", symmetric] by simp
  finally have "(127 / 128 :: real) ^ 128 \<le> inverse (exp 1)"
    by (simp add: exp_minus)
  moreover have "(1000 / 2730 :: real) < (127 / 128) ^ 128"
    by (simp add: power_divide)
  ultimately have "(1000 / 2730 :: real) < inverse (exp 1)" by linarith
  then have "(1000 / 2730) * exp 1 < (1::real)"
    by (simp add: field_simps)
  then show ?thesis by simp
qed

lemma ratio_close:
  fixes x :: real
  assumes "2704 / 1000 < x" "x < 2730 / 1000"
  shows "\<bar>x / (x + 1) - 731 / 1000\<bar> < 1 / 1000"
proof -
  have p: "0 < x + 1" using assms by linarith
  have lo: "730 / 1000 < x / (x + 1)"
    using p assms by (simp add: pos_less_divide_eq)
  have hi: "x / (x + 1) < 732 / 1000"
    using p assms by (simp add: pos_divide_less_eq)
  show ?thesis using lo hi by linarith
qed


lemma exp_minus_100_small: "0 < exp (- 100 :: real)" "exp (- 100 :: real) < float32_min"
proof -
  show "0 < exp (- 100 :: real)" by simp
  have "(5 / 2 :: real) \<le> exp 1"
    using exp_1_lower by simp
  then have "(5 / 2 :: real) ^ 100 \<le> exp 1 ^ 100"
    by (intro power_mono) auto
  also have "exp (1::real) ^ 100 = exp 100"
    using exp_of_nat_mult[of 100 "1::real", symmetric] by simp
  finally have "(5 / 2 :: real) ^ 100 \<le> exp 100" .
  moreover have "(2::real) ^ 126 < (5 / 2) ^ 100"
    by (simp add: power_divide)
  ultimately have "(2::real) ^ 126 < exp 100" by linarith
  then have "inverse (exp 100) < inverse ((2::real) ^ 126)"
    by (intro less_imp_inverse_less) auto
  then show "exp (- 100 :: real) < float32_min"
    by (simp add: exp_minus float32_min_def inverse_eq_divide)
qed

lemma exp_2_bounds: "float32_min \<le> exp (2::real)" "exp (2::real) \<le> float32_max"
proof -
  have "(1::real) \<le> exp 2" by simp
  then show "float32_min \<le> exp (2::real)" using float32_limits(2) by linarith
  have "exp (2::real) = exp 1 * exp 1" by (simp add: exp_add[symmetric])
  also have "\<dots> \<le> 3 * 3" by (intro mult_mono exp_le) auto
  finally show "exp (2::real) \<le> float32_max" using float32_limits(4) by linarith
qed

section \<open>Properties of the forward kernels\<close>

text \<open>
  C1.  Every cell of the output of the 1D and of the 2D forward kernel holds the two-pass
  reduction of section 4.3 over the valid cells of its window: with
  \<open>w_j = clamp (safe_exp x_j / weight_sum)\<close>, the clamped running sum of the clamped
  products \<open>w_j * x_j\<close>, where \<open>weight_sum\<close> is the clamped sum of the \<open>safe_exp x_i\<close>.
  The output cell \<open>(n, c, pd)\<close> is the one at the row-major index
  \<open>(n * channels + c) * pooled_dim + pd\<close>, and the input cell \<open>(n, c, d)\<close> the one at
  \<open>(n * channels + c) * dim + d\<close>; likewise in two dimensions.
\<close>

theorem forward_output_is_soft_pool:
  "(0 \<le> n \<and> 0 \<le> c \<and> c < channels \<and> 0 \<le> pd \<and> pd < dim' sdiv stride_d
      \<and> (n * channels + c) * (dim' sdiv stride_d) + pd < nthreads
    \<longrightarrow> SoftPool1dForward ex upper lower nthreads bottom_input batches channels dim' kernel_d
          stride_d output_data ((n * channels + c) * (dim' sdiv stride_d) + pd)
        = soft_pool ex upper lower
            (map (\<lambda>d. bottom_input ((n * channels + c) * dim' + d))
               (window_axis dim' kernel_d stride_d pd)))
   \<and> (0 \<le> n \<and> 0 \<le> c \<and> c < channels \<and> 0 \<le> ph \<and> ph < height sdiv stride_h
      \<and> 0 \<le> pw \<and> pw < width sdiv stride_w
      \<and> ((n * channels + c) * (height sdiv stride_h) + ph) * (width sdiv stride_w) + pw < nthreads
    \<longrightarrow> SoftPool2dForward ex upper lower nthreads bottom_input batches channels height width
          kernel_h kernel_w stride_h stride_w output_data
          (((n * channels + c) * (height sdiv stride_h) + ph) * (width sdiv stride_w) + pw)
        = soft_pool ex upper lower
            (map (\<lambda>(y, x). bottom_input ((n * channels + c) * height * width + (y * width + x)))
               (window2d height width kernel_h kernel_w stride_h stride_w ph pw)))"
proof (intro conjI impI)
  assume a: "0 \<le> n \<and> 0 \<le> c \<and> c < channels \<and> 0 \<le> pd \<and> pd < dim' sdiv stride_d
      \<and> (n * channels + c) * (dim' sdiv stride_d) + pd < nthreads"
  then have co: "SoftPool1dForward_coords channels dim' stride_d
           ((n * channels + c) * (dim' sdiv stride_d) + pd) = (n, c, pd)"
    by (intro SoftPool1dForward_coords_compose) auto
  have "0 \<le> (n * channels + c) * (dim' sdiv stride_d) + pd"
    using a by (intro divmod_compose(3)) auto
  then show "SoftPool1dForward ex upper lower nthreads bottom_input batches channels dim' kernel_d
          stride_d output_data ((n * channels + c) * (dim' sdiv stride_d) + pd)
        = soft_pool ex upper lower
            (map (\<lambda>d. bottom_input ((n * channels + c) * dim' + d))
               (window_axis dim' kernel_d stride_d pd))"
    using a by (simp add: SoftPool1dForward_eq SoftPool1dForward_value_def co)
next
  assume a: "0 \<le> n \<and> 0 \<le> c \<and> c < channels \<and> 0 \<le> ph \<and> ph < height sdiv stride_h
      \<and> 0 \<le> pw \<and> pw < width sdiv stride_w
      \<and> ((n * channels + c) * (height sdiv stride_h) + ph) * (width sdiv stride_w) + pw < nthreads"
  then have co: "SoftPool2dForward_coords channels height width stride_h stride_w
           (((n * channels + c) * (height sdiv stride_h) + ph) * (width sdiv stride_w) + pw)
         = (n, c, ph, pw)"
    by (intro SoftPool2dForward_coords_compose) auto
  have "0 \<le> (n * channels + c) * (height sdiv stride_h) + ph"
    using a by (intro divmod_compose(3)) auto
  then have "0 \<le> ((n * channels + c) * (height sdiv stride_h) + ph) * (width sdiv stride_w) + pw"
    using a by (intro divmod_compose(3)) auto
  then show "SoftPool2dForward ex upper lower nthreads bottom_input batches channels height width
          kernel_h kernel_w stride_h stride_w output_data
          (((n * channels + c) * (height sdiv stride_h) + ph) * (width sdiv stride_w) + pw)
        = soft_pool ex upper lower
            (map (\<lambda>(y, x). bottom_input ((n * channels + c) * height * width + (y * width + x)))
               (window2d height width kernel_h kernel_w stride_h stride_w ph pw))"
    using a by (simp add: SoftPool2dForward_eq SoftPool2dForward_value_def co)
qed

theorem forward_output_is_soft_pool_witness:
  "((0::int) \<le> 0 \<and> (0::int) \<le> 0 \<and> (0::int) < 1 \<and> (0::int) \<le> 1 \<and> (1::int) < 4 sdiv 2
      \<and> (0 * 1 + 0) * (4 sdiv 2) + 1 < (4::int))
   \<and> SoftPool1dForward exp float32_max float32_min 4 (buffer_of [0, 1, 0, 1, 0, 1, 0, 1]) 2 1 4 2 2
         (\<lambda>_. 0) 1
       = soft_pool exp float32_max float32_min [1, 0]
   \<and> ((1::int) < 2 sdiv 1 \<and> ((0 * 1 + 0) * (2 sdiv 1) + 1) * (2 sdiv 1) + 1 < (4::int))
   \<and> SoftPool2dForward exp float32_max float32_min 4 (buffer_of [0, 1, 0, 1, 0, 1, 0, 1]) 2 1 2 2
         2 2 1 1 (\<lambda>_. 0) 3
       = soft_pool exp float32_max float32_min [0, 1, 0, 1]"
proof -
  have w: "window_axis 4 2 2 1 = [1, 2]" "window_axis 2 2 1 1 = [0, 1]"
    by code_simp+
  show ?thesis
    using forward_output_is_soft_pool[where n=0 and c=0 and channels=1 and pd=1 and dim'=4
        and stride_d=2 and nthreads=4 and ex=exp and upper=float32_max and lower=float32_min
        and bottom_input="buffer_of [0, 1, 0, 1, 0, 1, 0, 1]" and batches=2 and kernel_d=2
        and output_data="\<lambda>_. 0" and ph=1 and pw=1 and height=2 and width=2 and kernel_h=2
        and kernel_w=2 and stride_h=1 and stride_w=1]
    by (simp add: w window2d_def buffer_of_def)
qed

text \<open>
  C9.  The output of a cell depends on the valid cells of its window only: two input
  buffers that agree on every candidate coordinate of the window that is neither negative
  nor at least the extent give the same output, whatever they hold elsewhere, inside or
  outside the input.  (That these candidates are left out of both passes, and not
  clamped to the boundary, is the list \<open>window_axis\<close> in the statement for C1.)
\<close>

theorem forward_reads_valid_window_only:
  "(0 \<le> n \<and> 0 \<le> c \<and> c < channels \<and> 0 \<le> pd \<and> pd < dim' sdiv stride_d
      \<and> (n * channels + c) * (dim' sdiv stride_d) + pd < nthreads
      \<and> (\<forall>i. 0 \<le> i \<and> i < kernel_d
              \<and> 0 \<le> pd * stride_d + i - kernel_d sdiv 2
              \<and> pd * stride_d + i - kernel_d sdiv 2 < dim' \<longrightarrow>
            input1 ((n * channels + c) * dim' + (pd * stride_d + i - kernel_d sdiv 2))
            = input2 ((n * channels + c) * dim' + (pd * stride_d + i - kernel_d sdiv 2)))
    \<longrightarrow> SoftPool1dForward ex upper lower nthreads input1 batches channels dim' kernel_d
          stride_d output_data ((n * channels + c) * (dim' sdiv stride_d) + pd)
        = SoftPool1dForward ex upper lower nthreads input2 batches channels dim' kernel_d
          stride_d output_data ((n * channels + c) * (dim' sdiv stride_d) + pd))
   \<and> (0 \<le> n \<and> 0 \<le> c \<and> c < channels \<and> 0 \<le> ph \<and> ph < height sdiv stride_h
      \<and> 0 \<le> pw \<and> pw < width sdiv stride_w
      \<and> ((n * channels + c) * (height sdiv stride_h) + ph) * (width sdiv stride_w) + pw < nthreads
      \<and> (\<forall>iy ix. 0 \<le> iy \<and> iy < kernel_h
              \<and> 0 \<le> ph * stride_h + iy - kernel_h sdiv 2
              \<and> ph * stride_h + iy - kernel_h sdiv 2 < height
              \<and> 0 \<le> ix \<and> ix < kernel_w
              \<and> 0 \<le> pw * stride_w + ix - kernel_w sdiv 2
              \<and> pw * stride_w + ix - kernel_w sdiv 2 < width \<longrightarrow>
            input1 ((n * channels + c) * height * width
                    + ((ph * stride_h + iy - kernel_h sdiv 2) * width
                       + (pw * stride_w + ix - kernel_w sdiv 2)))
            = input2 ((n * channels + c) * height * width
                    + ((ph * stride_h + iy - kernel_h sdiv 2) * width
                       + (pw * stride_w + ix - kernel_w sdiv 2))))
    \<longrightarrow> SoftPool2dForward ex upper lower nthreads input1 batches channels height width
          kernel_h kernel_w stride_h stride_w output_data
          (((n * channels + c) * (height sdiv stride_h) + ph) * (width sdiv stride_w) + pw)
        = SoftPool2dForward ex upper lower nthreads input2 batches channels height width
          kernel_h kernel_w stride_h stride_w output_data
          (((n * channels + c) * (height sdiv stride_h) + ph) * (width sdiv stride_w) + pw))"
proof (intro conjI impI)
  assume a: "0 \<le> n \<and> 0 \<le> c \<and> c < channels \<and> 0 \<le> pd \<and> pd < dim' sdiv stride_d
      \<and> (n * channels + c) * (dim' sdiv stride_d) + pd < nthreads
      \<and> (\<forall>i. 0 \<le> i \<and> i < kernel_d
              \<and> 0 \<le> pd * stride_d + i - kernel_d sdiv 2
              \<and> pd * stride_d + i - kernel_d sdiv 2 < dim' \<longrightarrow>
            input1 ((n * channels + c) * dim' + (pd * stride_d + i - kernel_d sdiv 2))
            = input2 ((n * channels + c) * dim' + (pd * stride_d + i - kernel_d sdiv 2)))"
  then have co: "SoftPool1dForward_coords channels dim' stride_d
           ((n * channels + c) * (dim' sdiv stride_d) + pd) = (n, c, pd)"
    by (intro SoftPool1dForward_coords_compose) auto
  have m: "map (\<lambda>d. input1 ((n * channels + c) * dim' + d)) (window_axis dim' kernel_d stride_d pd)
        = map (\<lambda>d. input2 ((n * channels + c) * dim' + d)) (window_axis dim' kernel_d stride_d pd)"
  proof (intro map_cong refl)
    fix d assume "d \<in> set (window_axis dim' kernel_d stride_d pd)"
    from window_axis_candidate[OF this] a
    show "input1 ((n * channels + c) * dim' + d) = input2 ((n * channels + c) * dim' + d)"
      by auto
  qed
  show "SoftPool1dForward ex upper lower nthreads input1 batches channels dim' kernel_d
          stride_d output_data ((n * channels + c) * (dim' sdiv stride_d) + pd)
        = SoftPool1dForward ex upper lower nthreads input2 batches channels dim' kernel_d
          stride_d output_data ((n * channels + c) * (dim' sdiv stride_d) + pd)"
    unfolding SoftPool1dForward_eq SoftPool1dForward_value_def co prod.case m ..
next
  assume a: "0 \<le> n \<and> 0 \<le> c \<and> c < channels \<and> 0 \<le> ph \<and> ph < height sdiv stride_h
      \<and> 0 \<le> pw \<and> pw < width sdiv stride_w
      \<and> ((n * channels + c) * (height sdiv stride_h) + ph) * (width sdiv stride_w) + pw < nthreads
      \<and> (\<forall>iy ix. 0 \<le> iy \<and> iy < kernel_h
              \<and> 0 \<le> ph * stride_h + iy - kernel_h sdiv 2
              \<and> ph * stride_h + iy - kernel_h sdiv 2 < height
              \<and> 0 \<le> ix \<and> ix < kernel_w
              \<and> 0 \<le> pw * stride_w + ix - kernel_w sdiv 2
              \<and> pw * stride_w + ix - kernel_w sdiv 2 < width \<longrightarrow>
            input1 ((n * channels + c) * height * width
                    + ((ph * stride_h + iy - kernel_h sdiv 2) * width
                       + (pw * stride_w + ix - kernel_w sdiv 2)))
            = input2 ((n * channels + c) * height * width
                    + ((ph * stride_h + iy - kernel_h sdiv 2) * width
                       + (pw * stride_w + ix - kernel_w sdiv 2))))"
  then have co: "SoftPool2dForward_coords channels height width stride_h stride_w
           (((n * channels + c) * (height sdiv stride_h) + ph) * (width sdiv stride_w) + pw)
         = (n, c, ph, pw)"
    by (intro SoftPool2dForward_coords_compose) auto
  have m: "map (\<lambda>(y, x). input1 ((n * channels + c) * height * width + (y * width + x)))
               (window2d height width kernel_h kernel_w stride_h stride_w ph pw)
        = map (\<lambda>(y, x). input2 ((n * channels + c) * height * width + (y * width + x)))
               (window2d height width kernel_h kernel_w stride_h stride_w ph pw)"
  proof (intro map_cong refl)
    fix w assume w: "w \<in> set (window2d height width kernel_h kernel_w stride_h stride_w ph pw)"
    obtain y x where yx: "w = (y, x)" by (cases w)
    have "y \<in> set (window_axis height kernel_h stride_h ph)"
      "x \<in> set (window_axis width kernel_w stride_w pw)"
      using w by (auto simp: yx window2d_def)
    from window_axis_candidate[OF this(1)] window_axis_candidate[OF this(2)] a
    show "(case w of (y, x) \<Rightarrow> input1 ((n * channels + c) * height * width + (y * width + x)))
          = (case w of (y, x) \<Rightarrow> input2 ((n * channels + c) * height * width + (y * width + x)))"
      unfolding yx prod.case by blast
  qed
  show "SoftPool2dForward ex upper lower nthreads input1 batches channels height width
          kernel_h kernel_w stride_h stride_w output_data
          (((n * channels + c) * (height sdiv stride_h) + ph) * (width sdiv stride_w) + pw)
        = SoftPool2dForward ex upper lower nthreads input2 batches channels height width
          kernel_h kernel_w stride_h stride_w output_data
          (((n * channels + c) * (height sdiv stride_h) + ph) * (width sdiv stride_w) + pw)"
    unfolding SoftPool2dForward_eq SoftPool2dForward_value_def co prod.case m ..
qed

theorem forward_reads_valid_window_only_witness:
  "((0::int) \<le> 0 \<and> (0::int) < 1 \<and> (0::int) < 9 sdiv 1 \<and> (0 * 1 + 0) * (9 sdiv 1) + 0 < (9::int))
   \<and> SoftPool1dForward exp float32_max float32_min 9 (buffer_of [0, 1, 0, 1, 0, 1, 0, 1, 0])
         1 1 9 3 1 (\<lambda>_. 0) 0
     = SoftPool1dForward exp float32_max float32_min 9
         ((buffer_of [0, 1, 0, 1, 0, 1, 0, 1, 0])(- 1 := 99, 2 := 99, 5 := 99, 9 := 99))
         1 1 9 3 1 (\<lambda>_. 0) 0
   \<and> ((0::int) < 3 sdiv 1 \<and> ((0 * 1 + 0) * (3 sdiv 1) + 0) * (3 sdiv 1) + 0 < (9::int))
   \<and> SoftPool2dForward exp float32_max float32_min 9 (buffer_of [0, 1, 0, 1, 0, 1, 0, 1, 0])
         1 1 3 3 3 3 1 1 (\<lambda>_. 0) 0
     = SoftPool2dForward exp float32_max float32_min 9
         ((buffer_of [0, 1, 0, 1, 0, 1, 0, 1, 0])(- 1 := 99, 2 := 99, 5 := 99, 9 := 99))
         1 1 3 3 3 3 1 1 (\<lambda>_. 0) 0"
proof -
  have s: "(3::int) sdiv 2 = 1" by simp
  have h1: "\<forall>i::int. 0 \<le> i \<and> i < 3 \<and> 0 \<le> 0 * 1 + i - 3 sdiv 2 \<and> 0 * 1 + i - 3 sdiv 2 < 9 \<longrightarrow>
           buffer_of [0, 1, 0, 1, 0, 1, 0, 1, 0] ((0 * 1 + 0) * 9 + (0 * 1 + i - 3 sdiv 2))
           = ((buffer_of [0, 1, 0, 1, 0, 1, 0, 1, 0])(- 1 := 99, 2 := 99, 5 := 99, 9 := 99))
               ((0 * 1 + 0) * 9 + (0 * 1 + i - 3 sdiv 2))"
    unfolding s by auto
  have h2: "\<forall>iy ix::int. 0 \<le> iy \<and> iy < 3 \<and> 0 \<le> 0 * 1 + iy - 3 sdiv 2 \<and> 0 * 1 + iy - 3 sdiv 2 < 3
              \<and> 0 \<le> ix \<and> ix < 3 \<and> 0 \<le> 0 * 1 + ix - 3 sdiv 2 \<and> 0 * 1 + ix - 3 sdiv 2 < 3 \<longrightarrow>
           buffer_of [0, 1, 0, 1, 0, 1, 0, 1, 0]
             ((0 * 1 + 0) * 3 * 3 + ((0 * 1 + iy - 3 sdiv 2) * 3 + (0 * 1 + ix - 3 sdiv 2)))
           = ((buffer_of [0, 1, 0, 1, 0, 1, 0, 1, 0])(- 1 := 99, 2 := 99, 5 := 99, 9 := 99))
             ((0 * 1 + 0) * 3 * 3 + ((0 * 1 + iy - 3 sdiv 2) * 3 + (0 * 1 + ix - 3 sdiv 2)))"
    unfolding s by (auto; presburger)
  show ?thesis
    using h1 h2 forward_reads_valid_window_only[where n=0 and c=0 and channels=1 and pd=0
        and dim'=9 and stride_d=1 and nthreads=9 and ex=exp and upper=float32_max
        and lower=float32_min and ?input1.0="buffer_of [0, 1, 0, 1, 0, 1, 0, 1, 0]"
        and ?input2.0="(buffer_of [0, 1, 0, 1, 0, 1, 0, 1, 0])(- 1 := 99, 2 := 99, 5 := 99, 9 := 99)"
        and batches=1 and kernel_d=3
        and output_data="\<lambda>_. 0" and ph=0 and pw=0 and height=3 and width=3 and kernel_h=3
        and kernel_w=3 and stride_h=1 and stride_w=1]
    by simp
qed

text \<open>
  C10.  The three forward kernels overwrite every output cell below \<open>nthreads\<close>: two runs
  that differ in the initial contents of the output buffer only end with the same value
  in each of these cells (for positive pooled extents and channel count, so that the index
  arithmetic divides by no zero).
\<close>

theorem forward_ignores_initial_output:
  assumes "0 \<le> i" "i < nthreads" "0 < channels"
    and "0 < dim' sdiv stride_d" "0 < depth sdiv stride_d"
    and "0 < height sdiv stride_h" "0 < width sdiv stride_w"
  shows "SoftPool1dForward ex upper lower nthreads bottom_input batches channels dim' kernel_d
           stride_d out1 i
         = SoftPool1dForward ex upper lower nthreads bottom_input batches channels dim' kernel_d
           stride_d out2 i
       \<and> SoftPool2dForward ex upper lower nthreads bottom_input batches channels height width
           kernel_h kernel_w stride_h stride_w out1 i
         = SoftPool2dForward ex upper lower nthreads bottom_input batches channels height width
           kernel_h kernel_w stride_h stride_w out2 i
       \<and> SoftPool3dForward ex upper lower nthreads bottom_input batches channels depth height width
           kernel_d kernel_h kernel_w stride_d stride_h stride_w out1 i
         = SoftPool3dForward ex upper lower nthreads bottom_input batches channels depth height width
           kernel_d kernel_h kernel_w stride_d stride_h stride_w out2 i"
  using assms by (simp add: SoftPool1dForward_eq SoftPool2dForward_eq SoftPool3dForward_eq)

theorem forward_ignores_initial_output_witness:
  "((0::int) \<le> 1 \<and> (1::int) < 2 \<and> (0::int) < 1 \<and> (0::int) < 4 sdiv 2 \<and> (0::int) < 2 sdiv 2
    \<and> (0::int) < 2 sdiv 1 \<and> (0::int) < 2 sdiv 2)
   \<and> SoftPool1dForward exp float32_max float32_min 2 (buffer_of [0, 1, 0, 1]) 1 1 4 2 2 (\<lambda>_. 5) 1
     = SoftPool1dForward exp float32_max float32_min 2 (buffer_of [0, 1, 0, 1]) 1 1 4 2 2 (\<lambda>_. 7) 1
   \<and> SoftPool2dForward exp float32_max float32_min 2 (buffer_of [0, 1, 0, 1]) 1 1 2 2 2 2 1 2
         (\<lambda>_. 5) 1
     = SoftPool2dForward exp float32_max float32_min 2 (buffer_of [0, 1, 0, 1]) 1 1 2 2 2 2 1 2
         (\<lambda>_. 7) 1
   \<and> SoftPool3dForward exp float32_max float32_min 2 (buffer_of [0, 1, 0, 1]) 1 1 2 2 2 2 2 2 2 1 2
         (\<lambda>_. 5) 1
     = SoftPool3dForward exp float32_max float32_min 2 (buffer_of [0, 1, 0, 1]) 1 1 2 2 2 2 2 2 2 1 2
         (\<lambda>_. 7) 1"
  using forward_ignores_initial_output[where i=1 and nthreads=2 and ex=exp
      and upper=float32_max and lower=float32_min and bottom_input="buffer_of [0, 1, 0, 1]"
      and batches=1 and channels=1 and dim'=4 and kernel_d=2 and stride_d=2
      and ?out1.0="\<lambda>_. 5" and ?out2.0="\<lambda>_. 7" and height=2 and width=2 and kernel_h=2
      and kernel_w=2 and stride_h=1 and stride_w=2 and depth=2]
  by simp

section \<open>The backward kernels scatter the weighted gradients\<close>

lemma fold_scatter:
  "fold (\<lambda>w (m::buffer). m(a w := m (a w) + v w)) ws m a0
   = m a0 + sum_list (map v (filter (\<lambda>w. a w = a0) ws))"
  by (induction ws arbitrary: m) auto

lemma fold_scatter_cells:
  assumes "\<And>i (m::buffer). i \<in> set is \<Longrightarrow>
             cell i m = fold (\<lambda>w m. m(a i w := m (a i w) + v i w)) (ws i) m"
  shows "fold cell is m a0
         = m a0 + (\<Sum>i\<leftarrow>is. \<Sum>w\<leftarrow>filter (\<lambda>w. a i w = a0) (ws i). v i w)"
  using assms
proof (induction "is" arbitrary: m)
  case Nil
  then show ?case by simp
next
  case (Cons i "is")
  have "fold cell (i # is) m a0 = fold cell is (cell i m) a0" by simp
  also have "\<dots> = cell i m a0 + (\<Sum>i\<leftarrow>is. \<Sum>w\<leftarrow>filter (\<lambda>w. a i w = a0) (ws i). v i w)"
    using Cons.prems by (intro Cons.IH) auto
  also have "cell i m a0 = m a0 + (\<Sum>w\<leftarrow>filter (\<lambda>w. a i w = a0) (ws i). v i w)"
    unfolding Cons.prems[OF list.set_intros(1)] fold_scatter ..
  finally show ?case by simp
qed

lemma SoftPool1dBackward_mask_sum_eq:
  "SoftPool1dBackward_mask_sum ex upper lower inp dim' kernel_d (pd * stride_d - kernel_d sdiv 2)
   = weight_sum ex upper lower (map inp (window_axis dim' kernel_d stride_d pd))"
proof -
  have c: "(\<lambda>i. pd * stride_d - kernel_d sdiv 2 + i) = (\<lambda>i. pd * stride_d + i - kernel_d sdiv 2)"
    by auto
  have "fold (\<lambda>i acc. if (pd * stride_d - kernel_d sdiv 2 + i \<ge> dim'
                          \<or> pd * stride_d - kernel_d sdiv 2 + i < 0) then acc
                       else acc + clamp (ex (inp (pd * stride_d - kernel_d sdiv 2 + i))) 0 upper)
          [0..kernel_d - 1] 0
        = fold (\<lambda>d acc. acc + clamp (ex (inp d)) 0 upper) (window_axis dim' kernel_d stride_d pd) 0"
    unfolding window_axis_def c[symmetric]
    by (rule fold_skip_filter[where skip="\<lambda>d. d \<ge> dim' \<or> d < 0"
          and c="\<lambda>i. pd * stride_d - kernel_d sdiv 2 + i"
          and h="\<lambda>d acc. acc + clamp (ex (inp d)) 0 upper"])
  then show ?thesis
    unfolding SoftPool1dBackward_mask_sum_def Let_def weight_sum_def
    by (simp add: fold_add_sum_list clamp_eq_clamp_magnitude safe_exp_def comp_def)
qed

lemma SoftPool1dBackward_cell_scatter:
  "SoftPool1dBackward_cell ex upper lower diff_output data_input batches channels dim' kernel_d
     stride_d index diff_input
   = (case SoftPool1dBackward_coords channels dim' stride_d index of (n, c, pd) \<Rightarrow>
       fold (\<lambda>d m. m((n * channels + c) * dim' + d := m ((n * channels + c) * dim' + d)
              + clamp_magnitude (diff_output index
                  * norm_weight ex upper lower
                      (map (\<lambda>d. data_input ((n * channels + c) * dim' + d))
                         (window_axis dim' kernel_d stride_d pd))
                      (data_input ((n * channels + c) * dim' + d))) 0 upper))
         (window_axis dim' kernel_d stride_d pd) diff_input)"
proof -
  obtain n c pd where co: "SoftPool1dBackward_coords channels dim' stride_d index = (n, c, pd)"
    by (cases "SoftPool1dBackward_coords channels dim' stride_d index") auto
  define off where "off = (n * channels + c) * dim'"
  define f where "f = (\<lambda>d. data_input (off + d))"
  define ws where "ws = window_axis dim' kernel_d stride_d pd"
  define ms where "ms = SoftPool1dBackward_mask_sum ex upper lower (\<lambda>i. data_input (off + i))
                          dim' kernel_d (pd * stride_d - kernel_d sdiv 2)"
  have ms: "ms = weight_sum ex upper lower (map f ws)"
    unfolding ms_def ws_def f_def SoftPool1dBackward_mask_sum_eq ..
  have c: "(\<lambda>i. pd * stride_d - kernel_d sdiv 2 + i) = (\<lambda>i. pd * stride_d + i - kernel_d sdiv 2)"
    by auto
  define V where "V = (\<lambda>w. clamp (diff_output index * clamp (clamp (ex (f w)) 0 upper / ms) 0 upper)
                           0 upper)"
  note L = fold_skip_filter[where skip="\<lambda>d. d \<ge> dim' \<or> d < 0"
      and c="\<lambda>i. pd * stride_d - kernel_d sdiv 2 + i"
      and h="\<lambda>w (m::buffer). m(off + w := m (off + w) + V w)"
      and xs="[0..kernel_d - 1]" and acc="diff_input"]
  have "SoftPool1dBackward_cell ex upper lower diff_output data_input batches channels dim' kernel_d
          stride_d index diff_input
        = fold (\<lambda>w (m::buffer). m(off + w := m (off + w) + V w)) ws diff_input"
    unfolding SoftPool1dBackward_cell_def co Let_def prod.case
      off_def[symmetric] ms_def[symmetric] ws_def window_axis_def c[symmetric] L[symmetric]
    by (simp add: f_def V_def cong: if_cong)
  moreover have "V w = clamp_magnitude (diff_output index
                  * norm_weight ex upper lower (map f ws) (f w)) 0 upper" for w
    by (simp add: V_def ms norm_weight_def safe_exp_def clamp_eq_clamp_magnitude)
  ultimately show ?thesis
    by (simp add: co f_def ws_def off_def)
qed


lemma quot_rem_unique:
  fixes L :: int
  assumes "0 \<le> r1" "r1 < L" "0 \<le> r2" "r2 < L"
  shows "(q1 * L + r1 = q2 * L + r2) \<longleftrightarrow> (q1 = q2 \<and> r1 = r2)"
proof
  assume e: "q1 * L + r1 = q2 * L + r2"
  have "(q1 * L + r1) div L = q1" "(q2 * L + r2) div L = q2"
    using assms by auto
  then have "q1 = q2" using e by simp
  then show "q1 = q2 \<and> r1 = r2" using e by simp
qed auto

lemma sum_list_slice:
  fixes P q Q :: int and G :: "int \<Rightarrow> real"
  assumes "0 < P" "0 \<le> q" "q < Q"
  shows "(\<Sum>i\<leftarrow>[0..Q * P - 1]. if i div P = q then G i else 0)
         = (\<Sum>r\<leftarrow>[0..P - 1]. G (q * P + r))"
proof -
  have set_eq: "{0..Q * P - 1} \<inter> {i. i div P = q} = {q * P..q * P + P - 1}"
  proof (intro set_eqI iffI)
    fix i assume "i \<in> {0..Q * P - 1} \<inter> {i. i div P = q}"
    then have d: "i div P = q" by simp
    have "i = (i div P) * P + i mod P" by simp
    moreover have "0 \<le> i mod P" "i mod P < P" using assms(1) by auto
    ultimately show "i \<in> {q * P..q * P + P - 1}" unfolding d by auto
  next
    fix i assume i: "i \<in> {q * P..q * P + P - 1}"
    then have "0 \<le> i - q * P" "i - q * P < P" by auto
    then have d: "i div P = q"
      by (intro int_div_pos_eq[where r="i - q * P"]) (auto simp: algebra_simps)
    have "0 \<le> q * P" using assms by simp
    moreover have "(q + 1) * P \<le> Q * P"
      using assms by (intro mult_right_mono) auto
    ultimately have "0 \<le> i" "i \<le> Q * P - 1" using i by (auto simp: algebra_simps)
    then show "i \<in> {0..Q * P - 1} \<inter> {i. i div P = q}" using d by simp
  qed
  have "(\<Sum>i\<leftarrow>[0..Q * P - 1]. if i div P = q then G i else 0)
        = (\<Sum>i\<in>{0..Q * P - 1}. if i div P = q then G i else 0)"
    by (simp add: interv_sum_list_conv_sum_set_int)
  also have "\<dots> = (\<Sum>i\<in>{0..Q * P - 1} \<inter> {i. i div P = q}. G i)"
    by (simp add: sum.inter_restrict)
  also have "\<dots> = (\<Sum>i\<in>{q * P..q * P + P - 1}. G i)"
    unfolding set_eq ..
  also have "\<dots> = (\<Sum>r\<in>{0..P - 1}. G (q * P + r))"
    by (rule sum.reindex_bij_witness[where i="\<lambda>r. q * P + r" and j="\<lambda>i. i - q * P"]) auto
  also have "\<dots> = (\<Sum>r\<leftarrow>[0..P - 1]. G (q * P + r))"
    by (simp add: interv_sum_list_conv_sum_set_int)
  finally show ?thesis .
qed

lemma scatter_slices:
  fixes P L q Q l0 :: int
  assumes cell: "\<And>i (m::buffer). 0 \<le> i \<Longrightarrow> i < Q * P \<Longrightarrow>
        cell i m = fold (\<lambda>w m. m((i div P) * L + loc w := m ((i div P) * L + loc w) + v i w))
                     (win (i mod P)) m"
    and P: "0 < P" and q: "0 \<le> q" "q < Q"
    and loc: "\<And>r w. w \<in> set (win r) \<Longrightarrow> 0 \<le> loc w \<and> loc w < L"
    and l0: "0 \<le> l0" "l0 < L"
  shows "fold cell [0..Q * P - 1] m (q * L + l0)
         = m (q * L + l0)
           + (\<Sum>r\<leftarrow>[0..P - 1]. \<Sum>w\<leftarrow>filter (\<lambda>w. loc w = l0) (win r). v (q * P + r) w)"
proof -
  define G where "G i = (\<Sum>w\<leftarrow>filter (\<lambda>w. loc w = l0) (win (i mod P)). v i w)" for i
  have inner: "(\<Sum>w\<leftarrow>filter (\<lambda>w. (i div P) * L + loc w = q * L + l0) (win (i mod P)). v i w)
               = (if i div P = q then G i else 0)" for i
  proof -
    have "filter (\<lambda>w. (i div P) * L + loc w = q * L + l0) (win (i mod P))
          = filter (\<lambda>w. i div P = q \<and> loc w = l0) (win (i mod P))"
      using loc l0 by (intro filter_cong refl quot_rem_unique) auto
    then show ?thesis by (simp add: G_def)
  qed
  have "fold cell [0..Q * P - 1] m (q * L + l0)
        = m (q * L + l0)
          + (\<Sum>i\<leftarrow>[0..Q * P - 1].
               \<Sum>w\<leftarrow>filter (\<lambda>w. (i div P) * L + loc w = q * L + l0) (win (i mod P)). v i w)"
    by (rule fold_scatter_cells[where a="\<lambda>i w. (i div P) * L + loc w" and ws="\<lambda>i. win (i mod P)"])
       (use cell in auto)
  also have "(\<Sum>i\<leftarrow>[0..Q * P - 1].
               \<Sum>w\<leftarrow>filter (\<lambda>w. (i div P) * L + loc w = q * L + l0) (win (i mod P)). v i w)
             = (\<Sum>r\<leftarrow>[0..P - 1]. G (q * P + r))"
    unfolding inner using P q by (rule sum_list_slice)
  also have "\<dots> = (\<Sum>r\<leftarrow>[0..P - 1]. \<Sum>w\<leftarrow>filter (\<lambda>w. loc w = l0) (win r). v (q * P + r) w)"
    using P by (intro arg_cong[where f=sum_list] map_cong refl) (auto simp: G_def)
  finally show ?thesis .
qed


lemma distinct_window_axis: "distinct (window_axis ext ker str po)"
  unfolding window_axis_def
  by (intro distinct_filter) (auto simp: distinct_map inj_on_def)

lemma filter_eq_distinct:
  "distinct xs \<Longrightarrow> filter (\<lambda>w. w = d) xs = (if d \<in> set xs then [d] else [])"
  by (induction xs) auto

lemma sum_list_if_filter:
  "(\<Sum>r\<leftarrow>xs. if c r then (f r :: real) else 0) = (\<Sum>r\<leftarrow>filter c xs. f r)"
  by (induction xs) auto

lemma norm_weight_unit:
  assumes "0 < upper" "\<forall>x. 0 \<le> ex x" "x \<in> set xs"
  shows "0 \<le> norm_weight ex upper lower xs x" "norm_weight ex upper lower xs x \<le> 1"
proof -
  have se: "safe_exp ex upper y = min (ex y) upper" for y
    using assms(1) assms(2)[rule_format, of y] by (auto simp: safe_exp_def clamp_magnitude_def sign_def)
  have nn: "0 \<le> safe_exp ex upper y" for y
    using assms(1) assms(2)[rule_format, of y] by (simp add: se)
  define m where "m = safe_exp ex upper x"
  define S where "S = sum_list (map (safe_exp ex upper) xs)"
  have m: "0 \<le> m" "m \<le> upper" using nn[of x] by (simp_all add: m_def se)
  have mS: "m \<le> S"
    unfolding m_def S_def using assms(3) nn
    by (intro member_le_sum_list) auto
  define ws where "ws = weight_sum ex upper lower xs"
  define r where "r = m / ws"
  have nw: "norm_weight ex upper lower xs x = clamp_magnitude r 0 upper"
    by (simp add: norm_weight_def m_def ws_def r_def)
  have r: "0 \<le> r \<and> r \<le> 1"
  proof (cases "m = 0")
    case True
    then show ?thesis by (simp add: r_def)
  next
    case False
    then have mp: "0 < m" using m by simp
    have ws: "ws = max lower (min S upper)"
      using mp mS by (simp add: ws_def weight_sum_def S_def[symmetric] clamp_magnitude_def sign_def)
    have "m \<le> ws" using m mS by (simp add: ws)
    then show ?thesis using mp by (auto simp: r_def)
  qed
  have "clamp_magnitude r 0 upper = min r upper"
    using r assms(1) by (auto simp: clamp_magnitude_def sign_def)
  then show "0 \<le> norm_weight ex upper lower xs x" "norm_weight ex upper lower xs x \<le> 1"
    using r assms(1) nw by auto
qed

lemma weighted_grad_exact:
  assumes "0 < upper" "\<forall>x. 0 \<le> ex x" "x \<in> set xs" "\<bar>g\<bar> \<le> upper"
  shows "clamp_magnitude (g * norm_weight ex upper lower xs x) 0 upper
         = g * norm_weight ex upper lower xs x"
proof -
  note u = norm_weight_unit[OF assms(1,2,3), of lower]
  have "\<bar>g * norm_weight ex upper lower xs x\<bar> = \<bar>g\<bar> * norm_weight ex upper lower xs x"
    using u by (simp add: abs_mult)
  also have "\<dots> \<le> \<bar>g\<bar> * 1"
    using u by (intro mult_left_mono) auto
  finally show ?thesis
    using assms(4) by (intro clamp_magnitude_id) auto
qed

lemma SoftPool1dBackward_coords_nonneg:
  assumes "0 \<le> index" "0 < channels" "0 < dim' sdiv stride_d"
  shows "SoftPool1dBackward_coords channels dim' stride_d index
         = (index div (dim' sdiv stride_d) div channels,
            index div (dim' sdiv stride_d) mod channels,
            index mod (dim' sdiv stride_d))"
proof -
  have "0 \<le> index div (dim' sdiv stride_d)"
    using assms by (simp add: pos_imp_zdiv_nonneg_iff)
  then show ?thesis
    using assms
    by (simp add: SoftPool1dBackward_coords_def SoftPool1dBackward_pooled_def Let_def
        sdiv_nonneg smod_nonneg)
qed

lemma SoftPool1dBackward_sum:
  assumes ch: "0 < channels" and P: "0 < dim' sdiv stride_d"
    and N: "nthreads = batches * channels * (dim' sdiv stride_d)"
    and q: "0 \<le> q" "q < batches * channels"
    and d: "0 \<le> d" "d < dim'"
  shows "SoftPool1dBackward ex upper lower nthreads diff_output data_input batches channels dim'
           kernel_d stride_d diff_input (q * dim' + d)
         = diff_input (q * dim' + d)
           + (\<Sum>pd\<leftarrow>filter (\<lambda>pd. d \<in> set (window_axis dim' kernel_d stride_d pd))
                       [0..dim' sdiv stride_d - 1].
                clamp_magnitude (diff_output (q * (dim' sdiv stride_d) + pd)
                  * norm_weight ex upper lower
                      (map (\<lambda>d. data_input (q * dim' + d)) (window_axis dim' kernel_d stride_d pd))
                      (data_input (q * dim' + d))) 0 upper)"
proof -
  define Pd where "Pd = dim' sdiv stride_d"
  define v where "v = (\<lambda>i w. clamp_magnitude (diff_output i
                  * norm_weight ex upper lower
                      (map (\<lambda>d. data_input ((i div Pd) * dim' + d))
                         (window_axis dim' kernel_d stride_d (i mod Pd)))
                      (data_input ((i div Pd) * dim' + w))) 0 upper)"
  have cell: "SoftPool1dBackward_cell ex upper lower diff_output data_input batches channels dim'
                kernel_d stride_d i m
              = fold (\<lambda>w m. m((i div Pd) * dim' + w := m ((i div Pd) * dim' + w) + v i w))
                  (window_axis dim' kernel_d stride_d (i mod Pd)) m"
    if "0 \<le> i" for i m
  proof -
    have "i div Pd div channels * channels + i div Pd mod channels = i div Pd"
      by simp
    then show ?thesis
      unfolding SoftPool1dBackward_cell_scatter
        SoftPool1dBackward_coords_nonneg[OF that ch P] prod.case Pd_def[symmetric] v_def
      by simp
  qed
  have "fold (SoftPool1dBackward_cell ex upper lower diff_output data_input batches channels dim'
                kernel_d stride_d) [0..(batches * channels) * Pd - 1] diff_input (q * dim' + d)
        = diff_input (q * dim' + d)
          + (\<Sum>r\<leftarrow>[0..Pd - 1]. \<Sum>w\<leftarrow>filter (\<lambda>w. w = d) (window_axis dim' kernel_d stride_d r).
               v (q * Pd + r) w)"
    using P q d
    by (intro scatter_slices[where loc="\<lambda>w. w" and win="\<lambda>r. window_axis dim' kernel_d stride_d r"
          and v=v]) (auto simp: cell Pd_def dest: window_axis_bounds)
  also have "(\<Sum>r\<leftarrow>[0..Pd - 1]. \<Sum>w\<leftarrow>filter (\<lambda>w. w = d) (window_axis dim' kernel_d stride_d r).
               v (q * Pd + r) w)
             = (\<Sum>r\<leftarrow>[0..Pd - 1]. if d \<in> set (window_axis dim' kernel_d stride_d r)
                                   then v (q * Pd + r) d else 0)"
    by (intro arg_cong[where f=sum_list] map_cong refl)
       (simp add: filter_eq_distinct[OF distinct_window_axis])
  also have "\<dots> = (\<Sum>r\<leftarrow>filter (\<lambda>pd. d \<in> set (window_axis dim' kernel_d stride_d pd)) [0..Pd - 1].
                       v (q * Pd + r) d)"
    by (rule sum_list_if_filter)
  also have "\<dots> = (\<Sum>pd\<leftarrow>filter (\<lambda>pd. d \<in> set (window_axis dim' kernel_d stride_d pd)) [0..Pd - 1].
                clamp_magnitude (diff_output (q * Pd + pd)
                  * norm_weight ex upper lower
                      (map (\<lambda>d. data_input (q * dim' + d)) (window_axis dim' kernel_d stride_d pd))
                      (data_input (q * dim' + d))) 0 upper)"
    using P by (intro arg_cong[where f=sum_list] map_cong refl) (auto simp: v_def Pd_def)
  finally show ?thesis
    by (simp add: SoftPool1dBackward_def N Pd_def)
qed


lemma SoftPool2dBackward_mask_sum_eq:
  "SoftPool2dBackward_mask_sum ex upper lower inp height width kernel_h kernel_w
     (ph * stride_h - kernel_h sdiv 2) (pw * stride_w - kernel_w sdiv 2)
   = weight_sum ex upper lower (map (\<lambda>(y, x). inp (y * width + x))
       (window2d height width kernel_h kernel_w stride_h stride_w ph pw))"
proof -
  have c: "(\<lambda>i. ph * stride_h - kernel_h sdiv 2 + i) = (\<lambda>i. ph * stride_h + i - kernel_h sdiv 2)"
    "(\<lambda>i. pw * stride_w - kernel_w sdiv 2 + i) = (\<lambda>i. pw * stride_w + i - kernel_w sdiv 2)"
    by auto
  note L = fold2_skip_filter[where skipy="\<lambda>d. d \<ge> height \<or> d < 0"
      and cy="\<lambda>i. ph * stride_h - kernel_h sdiv 2 + i"
      and skipx="\<lambda>d. d \<ge> width \<or> d < 0"
      and cx="\<lambda>i. pw * stride_w - kernel_w sdiv 2 + i"
      and h="\<lambda>(y, x) acc. acc + clamp (ex (inp (y * width + x))) 0 upper"
      and xs="[0..kernel_w - 1]" and ys="[0..kernel_h - 1]" and s=0]
  have "fold (\<lambda>(y, x) acc. acc + clamp (ex (inp (y * width + x))) 0 upper) ws 0
        = sum_list (map (safe_exp ex upper) (map (\<lambda>(y, x). inp (y * width + x)) ws))" for ws
    using fold_add_sum_list[where f="\<lambda>(y, x). clamp (ex (inp (y * width + x))) 0 upper"
        and a=0 and xs=ws]
    by (simp add: case_prod_unfold comp_def safe_exp_def clamp_eq_clamp_magnitude)
  then show ?thesis
    unfolding SoftPool2dBackward_mask_sum_def Let_def weight_sum_def window2d_def window_axis_def
      c[symmetric]
    using L by (simp add: clamp_eq_clamp_magnitude cong: if_cong)
qed

lemma SoftPool2dBackward_cell_scatter:
  "SoftPool2dBackward_cell ex upper lower diff_output data_input batches channels height width
     kernel_h kernel_w stride_h stride_w index diff_input
   = (case SoftPool2dBackward_coords channels height width stride_h stride_w index of
        (n, c, ph, pw) \<Rightarrow>
       fold (\<lambda>(y, x) m. m((n * channels + c) * height * width + (y * width + x) :=
              m ((n * channels + c) * height * width + (y * width + x))
              + clamp_magnitude (diff_output index
                  * norm_weight ex upper lower
                      (map (\<lambda>(y, x). data_input ((n * channels + c) * height * width
                                                    + (y * width + x)))
                         (window2d height width kernel_h kernel_w stride_h stride_w ph pw))
                      (data_input ((n * channels + c) * height * width + (y * width + x))))
                  0 upper))
         (window2d height width kernel_h kernel_w stride_h stride_w ph pw) diff_input)"
proof -
  obtain n c ph pw where
    co: "SoftPool2dBackward_coords channels height width stride_h stride_w index = (n, c, ph, pw)"
    by (cases "SoftPool2dBackward_coords channels height width stride_h stride_w index") auto
  define off where "off = (n * channels + c) * height * width"
  define f where "f = (\<lambda>(y, x). data_input (off + (y * width + x)))"
  define ws where "ws = window2d height width kernel_h kernel_w stride_h stride_w ph pw"
  define ms where "ms = SoftPool2dBackward_mask_sum ex upper lower (\<lambda>i. data_input (off + i))
                          height width kernel_h kernel_w
                          (ph * stride_h - kernel_h sdiv 2) (pw * stride_w - kernel_w sdiv 2)"
  have ms: "ms = weight_sum ex upper lower (map f ws)"
    unfolding ms_def ws_def f_def SoftPool2dBackward_mask_sum_eq ..
  have c: "(\<lambda>i. ph * stride_h - kernel_h sdiv 2 + i) = (\<lambda>i. ph * stride_h + i - kernel_h sdiv 2)"
    "(\<lambda>i. pw * stride_w - kernel_w sdiv 2 + i) = (\<lambda>i. pw * stride_w + i - kernel_w sdiv 2)"
    by auto
  define V where "V = (\<lambda>w. clamp (diff_output index * clamp (clamp (ex (f w)) 0 upper / ms) 0 upper)
                           0 upper)"
  define a where "a = (\<lambda>(y, x). off + (y * width + x))"
  note L = fold2_skip_filter[where skipy="\<lambda>d. d \<ge> height \<or> d < 0"
      and cy="\<lambda>i. ph * stride_h - kernel_h sdiv 2 + i"
      and skipx="\<lambda>d. d \<ge> width \<or> d < 0"
      and cx="\<lambda>i. pw * stride_w - kernel_w sdiv 2 + i"
      and h="\<lambda>w (m::buffer). m(a w := m (a w) + V w)"
      and xs="[0..kernel_w - 1]" and ys="[0..kernel_h - 1]" and s="diff_input"]
  have "SoftPool2dBackward_cell ex upper lower diff_output data_input batches channels height width
          kernel_h kernel_w stride_h stride_w index diff_input
        = fold (\<lambda>w (m::buffer). m(a w := m (a w) + V w)) ws diff_input"
    unfolding SoftPool2dBackward_cell_def co Let_def prod.case
      off_def[symmetric] ms_def[symmetric] ws_def window2d_def window_axis_def c[symmetric]
      L[symmetric]
    by (simp add: f_def V_def a_def cong: if_cong)
  moreover have "V w = clamp_magnitude (diff_output index
                  * norm_weight ex upper lower (map f ws) (f w)) 0 upper" for w
    by (simp add: V_def ms norm_weight_def safe_exp_def clamp_eq_clamp_magnitude)
  ultimately show ?thesis
    by (simp add: co f_def ws_def off_def a_def case_prod_unfold)
qed

lemma sum_list_product:
  "(\<Sum>p\<leftarrow>List.product xs ys. (f p :: real)) = (\<Sum>x\<leftarrow>xs. \<Sum>y\<leftarrow>ys. f (x, y))"
  by (induction xs) (auto simp: comp_def)

lemma pair_index:
  fixes a b PW PH :: int
  assumes "0 \<le> a" "a < PH" "0 \<le> b" "b < PW"
  shows "0 \<le> a * PW + b" "a * PW + b < PW * PH"
    "(a * PW + b) div PW = a" "(a * PW + b) mod PW = b"
proof -
  have pw: "0 < PW" using assms by linarith
  show "0 \<le> a * PW + b" using assms pw by simp
  have "(a + 1) * PW \<le> PH * PW"
    using assms pw by (intro mult_right_mono) auto
  then show "a * PW + b < PW * PH" using assms by (simp add: algebra_simps)
  show "(a * PW + b) div PW = a" "(a * PW + b) mod PW = b"
    using assms by auto
qed

lemma sum_list_pairs:
  fixes PW PH :: int and F :: "int \<Rightarrow> int \<Rightarrow> real"
  assumes "0 < PW" "0 < PH"
  shows "(\<Sum>r\<leftarrow>[0..PW * PH - 1]. F (r div PW) (r mod PW))
         = (\<Sum>(ph, pw)\<leftarrow>List.product [0..PH - 1] [0..PW - 1]. F ph pw)"
proof -
  have "(\<Sum>r\<leftarrow>[0..PW * PH - 1]. F (r div PW) (r mod PW))
        = (\<Sum>r\<in>{0..PW * PH - 1}. F (r div PW) (r mod PW))"
    by (simp add: interv_sum_list_conv_sum_set_int)
  also have "\<dots> = (\<Sum>(a, b)\<in>{0..PH - 1} \<times> {0..PW - 1}. F a b)"
  proof (rule sum.reindex_bij_witness[where i="\<lambda>(a, b). a * PW + b"
        and j="\<lambda>r. (r div PW, r mod PW)"])
    fix r assume r: "r \<in> {0..PW * PH - 1}"
    show "(case (r div PW, r mod PW) of (a, b) \<Rightarrow> a * PW + b) = r" by simp
    have "r = r div PW * PW + r mod PW" by simp
    moreover have "0 \<le> r mod PW" using assms by simp
    ultimately have "r div PW * PW \<le> r" by linarith
    then have "r div PW * PW < PH * PW" using r by (simp add: mult.commute)
    then have "r div PW < PH"
      using assms(1) by (simp add: mult_less_cancel_right)
    moreover have "0 \<le> r div PW" using r assms by (simp add: pos_imp_zdiv_nonneg_iff)
    ultimately show "(r div PW, r mod PW) \<in> {0..PH - 1} \<times> {0..PW - 1}"
      using assms by auto
    show "(case (r div PW, r mod PW) of (a, b) \<Rightarrow> F a b) = F (r div PW) (r mod PW)" by simp
  next
    fix p assume p: "p \<in> {0..PH - 1} \<times> {0..PW - 1}"
    obtain a b where ab: "p = (a, b)" by (cases p)
    have h: "0 \<le> a" "a < PH" "0 \<le> b" "b < PW" using p ab by auto
    show "((case p of (a, b) \<Rightarrow> a * PW + b) div PW, (case p of (a, b) \<Rightarrow> a * PW + b) mod PW) = p"
      using pair_index(3,4)[OF h] by (simp add: ab)
    show "(case p of (a, b) \<Rightarrow> a * PW + b) \<in> {0..PW * PH - 1}"
      using pair_index(1,2)[OF h] by (simp add: ab)
  qed
  also have "\<dots> = (\<Sum>a\<in>{0..PH - 1}. \<Sum>b\<in>{0..PW - 1}. F a b)"
    by (simp add: sum.cartesian_product)
  also have "\<dots> = (\<Sum>a\<leftarrow>[0..PH - 1]. \<Sum>b\<leftarrow>[0..PW - 1]. F a b)"
    by (simp add: interv_sum_list_conv_sum_set_int)
  also have "\<dots> = (\<Sum>(ph, pw)\<leftarrow>List.product [0..PH - 1] [0..PW - 1]. F ph pw)"
    by (simp add: sum_list_product)
  finally show ?thesis .
qed


lemma window2d_bounds:
  "(y, x) \<in> set (window2d height width kernel_h kernel_w stride_h stride_w ph pw)
   \<Longrightarrow> 0 \<le> y \<and> y < height \<and> 0 \<le> x \<and> x < width"
  by (auto simp: window2d_def dest: window_axis_bounds)

lemma distinct_window2d:
  "distinct (window2d height width kernel_h kernel_w stride_h stride_w ph pw)"
  unfolding window2d_def by (intro distinct_product distinct_window_axis)

lemma mod_product_split:
  fixes i PW PH :: int
  assumes "0 < PW" "0 < PH"
  shows "(i mod (PW * PH)) div PW = i div PW mod PH" "(i mod (PW * PH)) mod PW = i mod PW"
proof -
  have e: "i mod (PW * PH) = PW * (i div PW mod PH) + i mod PW"
    using assms by (simp add: zmod_zmult2_eq)
  show "(i mod (PW * PH)) div PW = i div PW mod PH"
    unfolding e using assms by simp
  show "(i mod (PW * PH)) mod PW = i mod PW"
    unfolding e using assms by simp
qed

lemma SoftPool2dBackward_coords_nonneg:
  assumes "0 \<le> index" "0 < channels" "0 < height sdiv stride_h" "0 < width sdiv stride_w"
  shows "SoftPool2dBackward_coords channels height width stride_h stride_w index
         = (index div (width sdiv stride_w) div (height sdiv stride_h) div channels,
            index div (width sdiv stride_w) div (height sdiv stride_h) mod channels,
            index div (width sdiv stride_w) mod (height sdiv stride_h),
            index mod (width sdiv stride_w))"
proof -
  have a: "0 \<le> index div (width sdiv stride_w)"
    using assms by (simp add: pos_imp_zdiv_nonneg_iff)
  then have b: "0 \<le> index div (width sdiv stride_w) div (height sdiv stride_h)"
    using assms by (simp add: pos_imp_zdiv_nonneg_iff)
  show ?thesis
    using assms a b
    by (simp add: SoftPool2dBackward_coords_def SoftPool2dBackward_pooled_def Let_def
        sdiv_nonneg smod_nonneg)
qed

lemma SoftPool2dBackward_sum:
  assumes ch: "0 < channels" and PH: "0 < height sdiv stride_h" and PW: "0 < width sdiv stride_w"
    and N: "nthreads = batches * channels * (height sdiv stride_h) * (width sdiv stride_w)"
    and q: "0 \<le> q" "q < batches * channels"
    and y: "0 \<le> y" "y < height" and x: "0 \<le> x" "x < width"
  shows "SoftPool2dBackward ex upper lower nthreads diff_output data_input batches channels
           height width kernel_h kernel_w stride_h stride_w diff_input
           (q * height * width + (y * width + x))
         = diff_input (q * height * width + (y * width + x))
           + (\<Sum>(ph, pw)\<leftarrow>filter
                  (\<lambda>(ph, pw). (y, x) \<in> set (window2d height width kernel_h kernel_w
                                                stride_h stride_w ph pw))
                  (List.product [0..height sdiv stride_h - 1] [0..width sdiv stride_w - 1]).
                clamp_magnitude
                  (diff_output ((q * (height sdiv stride_h) + ph) * (width sdiv stride_w) + pw)
                   * norm_weight ex upper lower
                       (map (\<lambda>(y, x). data_input (q * height * width + (y * width + x)))
                          (window2d height width kernel_h kernel_w stride_h stride_w ph pw))
                       (data_input (q * height * width + (y * width + x)))) 0 upper)"
proof -
  define Ph where "Ph = height sdiv stride_h"
  define Pw where "Pw = width sdiv stride_w"
  define P where "P = Pw * Ph"
  define L where "L = height * width"
  define loc where "loc = (\<lambda>(y, x). y * width + x)"
  define win where "win = (\<lambda>r. window2d height width kernel_h kernel_w stride_h stride_w
                               (r div Pw) (r mod Pw))"
  define v where "v = (\<lambda>i w. clamp_magnitude (diff_output i
                  * norm_weight ex upper lower
                      (map (\<lambda>w. data_input ((i div P) * L + loc w)) (win (i mod P)))
                      (data_input ((i div P) * L + loc w))) 0 upper)"
  have pos: "0 < Pw" "0 < Ph" "0 < P" using PH PW by (simp_all add: Ph_def Pw_def P_def)
  have cell: "SoftPool2dBackward_cell ex upper lower diff_output data_input batches channels
                height width kernel_h kernel_w stride_h stride_w i m
              = fold (\<lambda>w m. m((i div P) * L + loc w := m ((i div P) * L + loc w) + v i w))
                  (win (i mod P)) m"
    if "0 \<le> i" for i m
  proof -
    have e: "i div Pw div Ph div channels * channels + i div Pw div Ph mod channels = i div P"
      using pos by (simp add: P_def zdiv_zmult2_eq)
    have w: "win (i mod P) = window2d height width kernel_h kernel_w stride_h stride_w
                               (i div Pw mod Ph) (i mod Pw)"
      using mod_product_split[OF pos(1,2), of i] by (simp add: win_def P_def)
    show ?thesis
      unfolding SoftPool2dBackward_cell_scatter
        SoftPool2dBackward_coords_nonneg[OF that ch PH PW] prod.case
        Ph_def[symmetric] Pw_def[symmetric] e w v_def
      by (simp add: loc_def L_def case_prod_unfold mult.assoc)
  qed
  have l0: "0 \<le> y * width + x" "y * width + x < L"
    using pair_index(1,2)[OF y x] by (simp_all add: L_def mult.commute)
  have locb: "0 \<le> loc w \<and> loc w < L" if "w \<in> set (win r)" for r w
  proof -
    obtain a b where ab: "w = (a, b)" by (cases w)
    have "0 \<le> a \<and> a < height \<and> 0 \<le> b \<and> b < width"
      using that window2d_bounds by (auto simp: ab win_def)
    then show ?thesis
      using pair_index(1,2)[of a height b width] by (simp add: ab loc_def L_def mult.commute)
  qed
  have "fold (SoftPool2dBackward_cell ex upper lower diff_output data_input batches channels
                height width kernel_h kernel_w stride_h stride_w)
          [0..(batches * channels) * P - 1] diff_input (q * L + (y * width + x))
        = diff_input (q * L + (y * width + x))
          + (\<Sum>r\<leftarrow>[0..P - 1]. \<Sum>w\<leftarrow>filter (\<lambda>w. loc w = y * width + x) (win r). v (q * P + r) w)"
    using pos(3) q l0 locb
    by (intro scatter_slices[where loc=loc and win=win and v=v]) (auto simp: cell)
  also have "(\<Sum>r\<leftarrow>[0..P - 1]. \<Sum>w\<leftarrow>filter (\<lambda>w. loc w = y * width + x) (win r). v (q * P + r) w)
             = (\<Sum>r\<leftarrow>[0..P - 1]. if (y, x) \<in> set (win r) then v (q * P + r) (y, x) else 0)"
  proof (intro arg_cong[where f=sum_list] map_cong refl)
    fix r
    have "filter (\<lambda>w. loc w = y * width + x) (win r) = filter (\<lambda>w. w = (y, x)) (win r)"
    proof (intro filter_cong refl)
      fix w assume w: "w \<in> set (win r)"
      obtain a b where ab: "w = (a, b)" by (cases w)
      have "0 \<le> b \<and> b < width" using w window2d_bounds by (auto simp: ab win_def)
      then show "(loc w = y * width + x) = (w = (y, x))"
        using quot_rem_unique[of b width x a y] x by (simp add: ab loc_def)
    qed
    then show "(\<Sum>w\<leftarrow>filter (\<lambda>w. loc w = y * width + x) (win r). v (q * P + r) w)
               = (if (y, x) \<in> set (win r) then v (q * P + r) (y, x) else 0)"
      by (simp add: filter_eq_distinct[OF distinct_window2d] win_def)
  qed
  also have "\<dots> = (\<Sum>r\<leftarrow>[0..Pw * Ph - 1].
                 (\<lambda>ph pw. if (y, x) \<in> set (window2d height width kernel_h kernel_w
                                                stride_h stride_w ph pw)
                           then v (q * P + (ph * Pw + pw)) (y, x) else 0) (r div Pw) (r mod Pw))"
    by (simp add: win_def P_def cong: if_cong)
  also have "\<dots> = (\<Sum>(ph, pw)\<leftarrow>List.product [0..Ph - 1] [0..Pw - 1].
                 if (y, x) \<in> set (window2d height width kernel_h kernel_w stride_h stride_w ph pw)
                 then v (q * P + (ph * Pw + pw)) (y, x) else 0)"
    using pos(1,2) by (rule sum_list_pairs)
  also have "\<dots> = (\<Sum>p\<leftarrow>List.product [0..Ph - 1] [0..Pw - 1].
                 if (case p of (ph, pw) \<Rightarrow> (y, x) \<in> set (window2d height width kernel_h kernel_w
                                                stride_h stride_w ph pw))
                 then (case p of (ph, pw) \<Rightarrow> v (q * P + (ph * Pw + pw)) (y, x)) else 0)"
    by (intro arg_cong[where f=sum_list] map_cong refl) auto
  also have "\<dots> = (\<Sum>p\<leftarrow>filter (\<lambda>(ph, pw). (y, x) \<in> set (window2d height width kernel_h kernel_w
                                                stride_h stride_w ph pw))
                        (List.product [0..Ph - 1] [0..Pw - 1]).
                 case p of (ph, pw) \<Rightarrow> v (q * P + (ph * Pw + pw)) (y, x))"
    by (rule sum_list_if_filter)
  also have "\<dots> = (\<Sum>(ph, pw)\<leftarrow>filter
                  (\<lambda>(ph, pw). (y, x) \<in> set (window2d height width kernel_h kernel_w
                                                stride_h stride_w ph pw))
                  (List.product [0..Ph - 1] [0..Pw - 1]).
                clamp_magnitude
                  (diff_output ((q * Ph + ph) * Pw + pw)
                   * norm_weight ex upper lower
                       (map (\<lambda>(y, x). data_input (q * L + (y * width + x)))
                          (window2d height width kernel_h kernel_w stride_h stride_w ph pw))
                       (data_input (q * L + (y * width + x)))) 0 upper)"
  proof (intro arg_cong[where f=sum_list] map_cong refl)
    fix p assume "p \<in> set (filter (\<lambda>(ph, pw). (y, x) \<in> set (window2d height width kernel_h kernel_w
                                                stride_h stride_w ph pw))
                        (List.product [0..Ph - 1] [0..Pw - 1]))"
    then have "p \<in> {0..Ph - 1} \<times> {0..Pw - 1}" by simp
    then obtain ph pw where p: "p = (ph, pw)" and b: "0 \<le> ph" "ph < Ph" "0 \<le> pw" "pw < Pw"
      by auto
    note r = pair_index[OF b]
    have i: "q * P + (ph * Pw + pw) = (q * Ph + ph) * Pw + pw"
      by (simp add: P_def algebra_simps)
    have rP: "0 \<le> ph * Pw + pw" "ph * Pw + pw < P"
      using r(1,2) by (simp_all add: P_def)
    have d: "(q * P + (ph * Pw + pw)) div P = q" "(q * P + (ph * Pw + pw)) mod P = ph * Pw + pw"
      using rP by simp_all
    show "(case p of (ph, pw) \<Rightarrow> v (q * P + (ph * Pw + pw)) (y, x))
          = (case p of (ph, pw) \<Rightarrow> clamp_magnitude
                  (diff_output ((q * Ph + ph) * Pw + pw)
                   * norm_weight ex upper lower
                       (map (\<lambda>(y, x). data_input (q * L + (y * width + x)))
                          (window2d height width kernel_h kernel_w stride_h stride_w ph pw))
                       (data_input (q * L + (y * width + x)))) 0 upper)"
      unfolding p prod.case v_def d win_def r(3,4)
      by (simp add: i loc_def case_prod_unfold)
  qed
  finally show ?thesis
    by (simp add: SoftPool2dBackward_def N Ph_def Pw_def P_def L_def mult.assoc mult.commute[of "width sdiv stride_w"])
qed


lemma slice_index_bounds:
  fixes n c channels batches :: int
  assumes "0 \<le> n" "n < batches" "0 \<le> c" "c < channels"
  shows "0 \<le> n * channels + c" "n * channels + c < batches * channels"
proof -
  show "0 \<le> n * channels + c" using assms by simp
  have "(n + 1) * channels \<le> batches * channels"
    using assms by (intro mult_right_mono) auto
  then show "n * channels + c < batches * channels"
    using assms by (simp add: algebra_simps)
qed

lemma buffer_of_abs_le:
  assumes "0 \<le> M" "\<forall>x\<in>set xs. \<bar>x\<bar> \<le> M"
  shows "\<bar>buffer_of xs i\<bar> \<le> M"
  using assms by (auto simp: buffer_of_def)

text \<open>
  C2.  When the input-gradient buffer is zero before the 1D or the 2D backward kernel runs
  over all output cells, its final value at the input cell \<open>(n, c, d)\<close> is the sum, over
  the output cells \<open>(n, c, pd)\<close> whose window holds \<open>d\<close>, of the output gradient of that cell
  times the normalized, clamped weight of the input cell in that window; likewise for the
  input cell \<open>(n, c, y, x)\<close> in two dimensions.  The arithmetic is exact, the exponential
  non-negative (it may underflow to zero, as that of \<open>float\<close> does) and the output
  gradients at most \<open>upper\<close> in magnitude, so that the last clamp of the loop body changes
  nothing.  The kernel runs over all output cells: \<open>nthreads\<close> is their number.  In a
  window whose exponentials are all zero the weight sum is zero and every weight is the
  quotient \<open>0 / 0\<close>, which is \<open>0\<close> in the model.
\<close>

theorem backward_gradient_is_weighted_sum:
  "(0 < upper \<and> (\<forall>x. 0 \<le> ex x) \<and> (\<forall>i. \<bar>diff_output i\<bar> \<le> upper)
      \<and> 0 < channels \<and> 0 < dim' sdiv stride_d
      \<and> nthreads = batches * channels * (dim' sdiv stride_d)
      \<and> 0 \<le> n \<and> n < batches \<and> 0 \<le> c \<and> c < channels \<and> 0 \<le> d \<and> d < dim'
    \<longrightarrow> SoftPool1dBackward ex upper lower nthreads diff_output data_input batches channels dim'
          kernel_d stride_d (\<lambda>_. 0) ((n * channels + c) * dim' + d)
        = (\<Sum>pd\<leftarrow>filter (\<lambda>pd. d \<in> set (window_axis dim' kernel_d stride_d pd))
                      [0..dim' sdiv stride_d - 1].
             diff_output ((n * channels + c) * (dim' sdiv stride_d) + pd)
             * norm_weight ex upper lower
                 (map (\<lambda>d. data_input ((n * channels + c) * dim' + d))
                    (window_axis dim' kernel_d stride_d pd))
                 (data_input ((n * channels + c) * dim' + d))))
   \<and> (0 < upper \<and> (\<forall>x. 0 \<le> ex x) \<and> (\<forall>i. \<bar>diff_output i\<bar> \<le> upper)
      \<and> 0 < channels \<and> 0 < height sdiv stride_h \<and> 0 < width sdiv stride_w
      \<and> nthreads = batches * channels * (height sdiv stride_h) * (width sdiv stride_w)
      \<and> 0 \<le> n \<and> n < batches \<and> 0 \<le> c \<and> c < channels
      \<and> 0 \<le> y \<and> y < height \<and> 0 \<le> x \<and> x < width
    \<longrightarrow> SoftPool2dBackward ex upper lower nthreads diff_output data_input batches channels
          height width kernel_h kernel_w stride_h stride_w (\<lambda>_. 0)
          ((n * channels + c) * height * width + (y * width + x))
        = (\<Sum>(ph, pw)\<leftarrow>filter
               (\<lambda>(ph, pw). (y, x) \<in> set (window2d height width kernel_h kernel_w
                                             stride_h stride_w ph pw))
               (List.product [0..height sdiv stride_h - 1] [0..width sdiv stride_w - 1]).
             diff_output (((n * channels + c) * (height sdiv stride_h) + ph)
                            * (width sdiv stride_w) + pw)
             * norm_weight ex upper lower
                 (map (\<lambda>(y, x). data_input ((n * channels + c) * height * width + (y * width + x)))
                    (window2d height width kernel_h kernel_w stride_h stride_w ph pw))
                 (data_input ((n * channels + c) * height * width + (y * width + x)))))"
proof (intro conjI impI)
  assume a: "0 < upper \<and> (\<forall>x. 0 \<le> ex x) \<and> (\<forall>i. \<bar>diff_output i\<bar> \<le> upper)
      \<and> 0 < channels \<and> 0 < dim' sdiv stride_d
      \<and> nthreads = batches * channels * (dim' sdiv stride_d)
      \<and> 0 \<le> n \<and> n < batches \<and> 0 \<le> c \<and> c < channels \<and> 0 \<le> d \<and> d < dim'"
  define q where "q = n * channels + c"
  have q: "0 \<le> q" "q < batches * channels"
    using a slice_index_bounds[of n batches c channels] by (auto simp: q_def)
  have "SoftPool1dBackward ex upper lower nthreads diff_output data_input batches channels dim'
          kernel_d stride_d (\<lambda>_. 0) (q * dim' + d)
        = (\<Sum>pd\<leftarrow>filter (\<lambda>pd. d \<in> set (window_axis dim' kernel_d stride_d pd))
                       [0..dim' sdiv stride_d - 1].
                clamp_magnitude (diff_output (q * (dim' sdiv stride_d) + pd)
                  * norm_weight ex upper lower
                      (map (\<lambda>d. data_input (q * dim' + d)) (window_axis dim' kernel_d stride_d pd))
                      (data_input (q * dim' + d))) 0 upper)"
    using a q by (subst SoftPool1dBackward_sum[where q=q and d=d]) auto
  also have "\<dots> = (\<Sum>pd\<leftarrow>filter (\<lambda>pd. d \<in> set (window_axis dim' kernel_d stride_d pd))
                       [0..dim' sdiv stride_d - 1].
                diff_output (q * (dim' sdiv stride_d) + pd)
                  * norm_weight ex upper lower
                      (map (\<lambda>d. data_input (q * dim' + d)) (window_axis dim' kernel_d stride_d pd))
                      (data_input (q * dim' + d)))"
  proof (intro arg_cong[where f=sum_list] map_cong refl weighted_grad_exact)
    fix pd assume "pd \<in> set (filter (\<lambda>pd. d \<in> set (window_axis dim' kernel_d stride_d pd))
                       [0..dim' sdiv stride_d - 1])"
    then show "data_input (q * dim' + d)
               \<in> set (map (\<lambda>d. data_input (q * dim' + d)) (window_axis dim' kernel_d stride_d pd))"
      by auto
  qed (use a in auto)
  finally show "SoftPool1dBackward ex upper lower nthreads diff_output data_input batches channels
          dim' kernel_d stride_d (\<lambda>_. 0) ((n * channels + c) * dim' + d)
        = (\<Sum>pd\<leftarrow>filter (\<lambda>pd. d \<in> set (window_axis dim' kernel_d stride_d pd))
                      [0..dim' sdiv stride_d - 1].
             diff_output ((n * channels + c) * (dim' sdiv stride_d) + pd)
             * norm_weight ex upper lower
                 (map (\<lambda>d. data_input ((n * channels + c) * dim' + d))
                    (window_axis dim' kernel_d stride_d pd))
                 (data_input ((n * channels + c) * dim' + d)))"
    unfolding q_def .
next
  assume a: "0 < upper \<and> (\<forall>x. 0 \<le> ex x) \<and> (\<forall>i. \<bar>diff_output i\<bar> \<le> upper)
      \<and> 0 < channels \<and> 0 < height sdiv stride_h \<and> 0 < width sdiv stride_w
      \<and> nthreads = batches * channels * (height sdiv stride_h) * (width sdiv stride_w)
      \<and> 0 \<le> n \<and> n < batches \<and> 0 \<le> c \<and> c < channels
      \<and> 0 \<le> y \<and> y < height \<and> 0 \<le> x \<and> x < width"
  define q where "q = n * channels + c"
  have q: "0 \<le> q" "q < batches * channels"
    using a slice_index_bounds[of n batches c channels] by (auto simp: q_def)
  have "SoftPool2dBackward ex upper lower nthreads diff_output data_input batches channels
           height width kernel_h kernel_w stride_h stride_w (\<lambda>_. 0)
           (q * height * width + (y * width + x))
        = (\<Sum>(ph, pw)\<leftarrow>filter
                  (\<lambda>(ph, pw). (y, x) \<in> set (window2d height width kernel_h kernel_w
                                                stride_h stride_w ph pw))
                  (List.product [0..height sdiv stride_h - 1] [0..width sdiv stride_w - 1]).
                clamp_magnitude
                  (diff_output ((q * (height sdiv stride_h) + ph) * (width sdiv stride_w) + pw)
                   * norm_weight ex upper lower
                       (map (\<lambda>(y, x). data_input (q * height * width + (y * width + x)))
                          (window2d height width kernel_h kernel_w stride_h stride_w ph pw))
                       (data_input (q * height * width + (y * width + x)))) 0 upper)"
    using a q by (subst SoftPool2dBackward_sum[where q=q and y=y and x=x]) auto
  also have "\<dots> = (\<Sum>(ph, pw)\<leftarrow>filter
                  (\<lambda>(ph, pw). (y, x) \<in> set (window2d height width kernel_h kernel_w
                                                stride_h stride_w ph pw))
                  (List.product [0..height sdiv stride_h - 1] [0..width sdiv stride_w - 1]).
                  diff_output ((q * (height sdiv stride_h) + ph) * (width sdiv stride_w) + pw)
                   * norm_weight ex upper lower
                       (map (\<lambda>(y, x). data_input (q * height * width + (y * width + x)))
                          (window2d height width kernel_h kernel_w stride_h stride_w ph pw))
                       (data_input (q * height * width + (y * width + x))))"
  proof (intro arg_cong[where f=sum_list] map_cong refl)
    fix p assume p: "p \<in> set (filter
                  (\<lambda>(ph, pw). (y, x) \<in> set (window2d height width kernel_h kernel_w
                                                stride_h stride_w ph pw))
                  (List.product [0..height sdiv stride_h - 1] [0..width sdiv stride_w - 1]))"
    obtain ph pw where pp: "p = (ph, pw)" by (cases p)
    have "(y, x) \<in> set (window2d height width kernel_h kernel_w stride_h stride_w ph pw)"
      using p by (simp add: pp)
    then have "data_input (q * height * width + (y * width + x))
               \<in> set (map (\<lambda>(y, x). data_input (q * height * width + (y * width + x)))
                          (window2d height width kernel_h kernel_w stride_h stride_w ph pw))"
      by force
    then show "(case p of (ph, pw) \<Rightarrow> clamp_magnitude
                  (diff_output ((q * (height sdiv stride_h) + ph) * (width sdiv stride_w) + pw)
                   * norm_weight ex upper lower
                       (map (\<lambda>(y, x). data_input (q * height * width + (y * width + x)))
                          (window2d height width kernel_h kernel_w stride_h stride_w ph pw))
                       (data_input (q * height * width + (y * width + x)))) 0 upper)
         = (case p of (ph, pw) \<Rightarrow>
                  diff_output ((q * (height sdiv stride_h) + ph) * (width sdiv stride_w) + pw)
                   * norm_weight ex upper lower
                       (map (\<lambda>(y, x). data_input (q * height * width + (y * width + x)))
                          (window2d height width kernel_h kernel_w stride_h stride_w ph pw))
                       (data_input (q * height * width + (y * width + x))))"
      unfolding pp prod.case using a by (intro weighted_grad_exact) auto
  qed
  finally show "SoftPool2dBackward ex upper lower nthreads diff_output data_input batches channels
          height width kernel_h kernel_w stride_h stride_w (\<lambda>_. 0)
          ((n * channels + c) * height * width + (y * width + x))
        = (\<Sum>(ph, pw)\<leftarrow>filter
               (\<lambda>(ph, pw). (y, x) \<in> set (window2d height width kernel_h kernel_w
                                             stride_h stride_w ph pw))
               (List.product [0..height sdiv stride_h - 1] [0..width sdiv stride_w - 1]).
             diff_output (((n * channels + c) * (height sdiv stride_h) + ph)
                            * (width sdiv stride_w) + pw)
             * norm_weight ex upper lower
                 (map (\<lambda>(y, x). data_input ((n * channels + c) * height * width + (y * width + x)))
                    (window2d height width kernel_h kernel_w stride_h stride_w ph pw))
                 (data_input ((n * channels + c) * height * width + (y * width + x))))"
    unfolding q_def .
qed

theorem backward_gradient_is_weighted_sum_witness:
  "(0 < float32_max \<and> (\<forall>x. 0 \<le> float32_exp x) \<and> float32_exp (- 200) = 0
      \<and> (0::int) < 1 \<and> (0::int) < 4 sdiv 2
      \<and> (2::int) = 1 * 1 * (4 sdiv 2) \<and> (1::int) < 4)
   \<and> SoftPool1dBackward float32_exp float32_max float32_min 2 (buffer_of [5, 7])
         (buffer_of [0, 1, - 200, 1]) 1 1 4 2 2 (\<lambda>_. 0) 1
       = 7 * norm_weight float32_exp float32_max float32_min [1, - 200] 1
   \<and> ((0::int) < 2 sdiv 1 \<and> (0::int) < 2 sdiv 2 \<and> (2::int) = 1 * 1 * (2 sdiv 1) * (2 sdiv 2))
   \<and> SoftPool2dBackward float32_exp float32_max float32_min 2 (buffer_of [5, 7])
         (buffer_of [0, 1, - 200, 1]) 1 1 2 2 2 2 1 2 (\<lambda>_. 0) 0
       = 5 * norm_weight float32_exp float32_max float32_min [0] 0
         + 7 * norm_weight float32_exp float32_max float32_min [0, - 200] 0"
proof -
  have u: "0 < float32_max" using float32_limits(3) by linarith
  have e: "\<forall>x. 0 \<le> float32_exp x" "float32_exp (- 200) = 0"
    by (simp_all add: float32_exp_def)
  have g: "\<forall>i. \<bar>buffer_of [5, 7] i\<bar> \<le> float32_max"
    using float32_limits(4) by (intro allI buffer_of_abs_le) auto
  have w: "window_axis 4 2 2 0 = [0]" "window_axis 4 2 2 1 = [1, 2]"
    "window_axis 2 2 1 0 = [0]" "window_axis 2 2 1 1 = [0, 1]" "window_axis 2 2 2 0 = [0]"
    by code_simp+
  have l: "[0..(1::int)] = [0, 1]" "[0..(0::int)] = [0]"
    by code_simp+
  have h1: "0 < float32_max \<and> (\<forall>x. 0 \<le> float32_exp x)
      \<and> (\<forall>i. \<bar>buffer_of [5, 7] i\<bar> \<le> float32_max)
      \<and> (0::int) < 1 \<and> (0::int) < 4 sdiv 2 \<and> (2::int) = 1 * 1 * (4 sdiv 2)
      \<and> (0::int) \<le> 0 \<and> (0::int) < 1 \<and> (0::int) \<le> 0 \<and> (0::int) < 1 \<and> (0::int) \<le> 1 \<and> (1::int) < 4"
    using u e(1) g by simp
  have h2: "0 < float32_max \<and> (\<forall>x. 0 \<le> float32_exp x)
      \<and> (\<forall>i. \<bar>buffer_of [5, 7] i\<bar> \<le> float32_max)
      \<and> (0::int) < 1 \<and> (0::int) < 2 sdiv 1 \<and> (0::int) < 2 sdiv 2
      \<and> (2::int) = 1 * 1 * (2 sdiv 1) * (2 sdiv 2)
      \<and> (0::int) \<le> 0 \<and> (0::int) < 1 \<and> (0::int) \<le> 0 \<and> (0::int) < 1
      \<and> (0::int) \<le> 0 \<and> (0::int) < 2 \<and> (0::int) \<le> 0 \<and> (0::int) < 2"
    using u e(1) g by simp
  note T = backward_gradient_is_weighted_sum[where upper=float32_max and ex=float32_exp
      and diff_output="buffer_of [5, 7]" and channels=1 and dim'=4 and stride_d=2 and nthreads=2
      and batches=1 and n=0 and c=0 and d=1 and lower=float32_min
      and data_input="buffer_of [0, 1, - 200, 1]" and kernel_d=2 and height=2 and width=2
      and stride_h=1 and stride_w=2 and kernel_h=2 and kernel_w=2 and y=0 and x=0]
  have c1: "SoftPool1dBackward float32_exp float32_max float32_min 2 (buffer_of [5, 7])
              (buffer_of [0, 1, - 200, 1]) 1 1 4 2 2 (\<lambda>_. 0) 1
            = 7 * norm_weight float32_exp float32_max float32_min [1, - 200] 1"
    using T[THEN conjunct1, rule_format, OF h1]
    by (simp add: w l buffer_of_def)
  have c2: "SoftPool2dBackward float32_exp float32_max float32_min 2 (buffer_of [5, 7])
              (buffer_of [0, 1, - 200, 1]) 1 1 2 2 2 2 1 2 (\<lambda>_. 0) 0
            = 5 * norm_weight float32_exp float32_max float32_min [0] 0
              + 7 * norm_weight float32_exp float32_max float32_min [0, - 200] 0"
    using T[THEN conjunct2, rule_format, OF h2]
    by (simp add: w l window2d_def buffer_of_def)
  show ?thesis using u e c1 c2 by simp
qed

section \<open>Statements of the specification that hold in an amended form\<close>





text \<open>
  C7.  The input \<open>[0, 1, 0, 1]\<close> with kernel 2 and stride 2 does not give about
  \<open>[0.731, 0.731]\<close>; the first cell differs: the window starts \<open>kernel/2 = 1\<close> cell before
  \<open>pd * stride\<close>, so the first window is the cell 0 alone (the candidate \<open>- 1\<close> is
  skipped) and its output is 0.
\<close>

theorem scenario_first_output_is_zero:
  "SoftPool1dForward exp float32_max float32_min 2 (buffer_of [0, 1, 0, 1]) 1 1 4 2 2 (\<lambda>_. 0) 0 = 0
   \<and> \<not> \<bar>SoftPool1dForward exp float32_max float32_min 2 (buffer_of [0, 1, 0, 1]) 1 1 4 2 2
           (\<lambda>_. 0) 0 - 731 / 1000\<bar> < 1 / 1000"
proof -
  have co: "SoftPool1dForward_coords 1 4 2 0 = (0, 0, 0)" by code_simp
  have w: "window_axis 4 2 2 0 = [0]" by code_simp
  have "soft_pool exp float32_max float32_min [0] = 0"
    using soft_pool_exact(3)[where ex=exp and xs="[0]" and lower=float32_min and upper=float32_max]
      float32_limits by simp
  then have "SoftPool1dForward exp float32_max float32_min 2 (buffer_of [0, 1, 0, 1]) 1 1 4 2 2
               (\<lambda>_. 0) 0 = 0"
    by (simp add: SoftPool1dForward_eq SoftPool1dForward_value_def co w buffer_of_def)
  then show ?thesis by simp
qed

text \<open>
  C7, amended.  The output is \<open>[0, e / (e + 1)]\<close>, about \<open>[0, 0.731]\<close>: the second window
  holds the cells 1 and 2, with the values 1 and 0.
\<close>

theorem scenario_output:
  "SoftPool1dForward exp float32_max float32_min 2 (buffer_of [0, 1, 0, 1]) 1 1 4 2 2 (\<lambda>_. 0) 0 = 0
   \<and> SoftPool1dForward exp float32_max float32_min 2 (buffer_of [0, 1, 0, 1]) 1 1 4 2 2 (\<lambda>_. 0) 1
       = exp 1 / (exp 1 + 1)
   \<and> \<bar>SoftPool1dForward exp float32_max float32_min 2 (buffer_of [0, 1, 0, 1]) 1 1 4 2 2
         (\<lambda>_. 0) 1 - 731 / 1000\<bar> < 1 / 1000"
proof -
  have co: "SoftPool1dForward_coords 1 4 2 0 = (0, 0, 0)" "SoftPool1dForward_coords 1 4 2 1 = (0, 0, 1)"
    by code_simp+
  have w: "window_axis 4 2 2 0 = [0]" "window_axis 4 2 2 1 = [1, 2]" by code_simp+
  have "soft_pool exp float32_max float32_min [0] = 0"
    using soft_pool_exact(3)[where ex=exp and xs="[0]" and lower=float32_min and upper=float32_max]
      float32_limits by simp
  then have o0: "SoftPool1dForward exp float32_max float32_min 2 (buffer_of [0, 1, 0, 1]) 1 1 4 2 2
               (\<lambda>_. 0) 0 = 0"
    by (simp add: SoftPool1dForward_eq SoftPool1dForward_value_def co w buffer_of_def)
  have e: "(2704 / 1000 :: real) < exp 1" "exp 1 < (2730 / 1000 :: real)"
    using exp_1_lower exp_1_upper by auto
  have "float32_min \<le> exp 1 + 1" "exp 1 + 1 \<le> float32_max"
    using e float32_limits by linarith+
  then have "soft_pool exp float32_max float32_min [1, 0] = exp 1 / (exp 1 + 1)"
    using soft_pool_exact(3)[where ex=exp and xs="[1, 0]" and lower=float32_min and upper=float32_max]
      float32_limits by simp
  then have o1: "SoftPool1dForward exp float32_max float32_min 2 (buffer_of [0, 1, 0, 1]) 1 1 4 2 2
               (\<lambda>_. 0) 1 = exp 1 / (exp 1 + 1)"
    by (simp add: SoftPool1dForward_eq SoftPool1dForward_value_def co w buffer_of_def)
  have "\<bar>exp 1 / (exp 1 + 1) - 731 / 1000\<bar> < (1 / 1000 :: real)"
    using e by (rule ratio_close)
  then show ?thesis using o0 o1 by simp
qed

text \<open>
  C8.  A window of equal values \<open>v\<close> does not give the output \<open>v\<close> when \<open>v\<close> is very
  negative: for the single value \<open>- 100\<close> the sum of the exponentials lies below
  \<open>lower\<close> and is clamped up to it, the weight is less than 1 and the output is not
  \<open>- 100\<close>.
\<close>

theorem constant_window_output_differs:
  "SoftPool1dForward exp float32_max float32_min 1 (buffer_of [- 100]) 1 1 1 1 1 (\<lambda>_. 0) 0
   \<noteq> - 100"
proof -
  have co: "SoftPool1dForward_coords 1 1 1 0 = (0, 0, 0)" by code_simp
  have w: "window_axis 1 1 1 0 = [0]" by code_simp
  define e where "e = exp (- 100 :: real)"
  have e: "0 < e" "e < float32_min" "e < float32_max"
    using exp_minus_100_small float32_limits by (auto simp: e_def)
  have se: "safe_exp exp float32_max (- 100) = e"
    unfolding safe_exp_def e_def[symmetric] using e by (intro clamp_magnitude_id) auto
  have ws: "weight_sum exp float32_max float32_min [- 100] = float32_min"
    using e float32_limits by (simp add: weight_sum_def se clamp_magnitude_def sign_def)
  define r where "r = e / float32_min"
  have q: "0 < r" "r < 1"
    using e float32_limits by (auto simp: r_def)
  have "\<bar>r\<bar> \<le> float32_max"
    using q float32_limits(3) by linarith
  then have nw: "norm_weight exp float32_max float32_min [- 100] (- 100) = r"
    unfolding norm_weight_def se ws r_def[symmetric] by (intro clamp_magnitude_id) auto
  have b: "\<bar>r * (- 100)\<bar> \<le> float32_max"
  proof -
    have "\<bar>r * (- 100)\<bar> = 100 * r"
      using q by (simp add: abs_mult)
    also have "\<dots> \<le> 100" using q by simp
    finally show ?thesis using float32_limits(4) by linarith
  qed
  have "soft_pool exp float32_max float32_min [- 100] = r * (- 100)"
    using b by (simp add: soft_pool_def nw clamp_magnitude_id)
  moreover have "r * (- 100) \<noteq> - 100"
    using q by simp
  ultimately show ?thesis
    by (simp add: SoftPool1dForward_eq SoftPool1dForward_value_def co w buffer_of_def)
qed

text \<open>
  C8, amended.  When the valid cells of the window of a cell of the 1D kernel all hold
  \<open>v\<close>, with \<open>|v| \<le> upper\<close> and \<open>lower \<le> count * ex v \<le> upper\<close> for the number \<open>count\<close>
  of valid cells (so that no clamp changes a value), then in exact arithmetic the
  normalized weight of \<open>v\<close> is \<open>1 / count\<close> and the output of the cell is \<open>v\<close>.
\<close>

theorem constant_window_exact:
  assumes "0 \<le> n" "0 \<le> c" "c < channels" "0 \<le> pd" "pd < dim' sdiv stride_d"
    and "(n * channels + c) * (dim' sdiv stride_d) + pd < nthreads"
    and "\<forall>d\<in>set (window_axis dim' kernel_d stride_d pd).
           bottom_input ((n * channels + c) * dim' + d) = v"
    and "0 < lower" "1 \<le> upper" "\<bar>v\<bar> \<le> upper"
    and "lower \<le> real (length (window_axis dim' kernel_d stride_d pd)) * ex v"
    and "real (length (window_axis dim' kernel_d stride_d pd)) * ex v \<le> upper"
  shows "norm_weight ex upper lower
           (map (\<lambda>d. bottom_input ((n * channels + c) * dim' + d))
              (window_axis dim' kernel_d stride_d pd)) v
         = 1 / real (length (window_axis dim' kernel_d stride_d pd))
       \<and> SoftPool1dForward ex upper lower nthreads bottom_input batches channels dim' kernel_d
           stride_d output_data ((n * channels + c) * (dim' sdiv stride_d) + pd) = v"
proof -
  define xs where "xs = map (\<lambda>d. bottom_input ((n * channels + c) * dim' + d))
              (window_axis dim' kernel_d stride_d pd)"
  have len: "length xs = length (window_axis dim' kernel_d stride_d pd)"
    by (simp add: xs_def)
  have all: "\<forall>x\<in>set xs. x = v" using assms(7) by (auto simp: xs_def)
  note C = soft_pool_constant[where ex=ex, OF assms(8,9,10) all, unfolded len, OF assms(11,12)]
  have co: "SoftPool1dForward_coords channels dim' stride_d
           ((n * channels + c) * (dim' sdiv stride_d) + pd) = (n, c, pd)"
    using assms by (intro SoftPool1dForward_coords_compose) auto
  have "0 \<le> (n * channels + c) * (dim' sdiv stride_d) + pd"
    using assms by (intro divmod_compose(3)) auto
  then have "SoftPool1dForward ex upper lower nthreads bottom_input batches channels dim' kernel_d
           stride_d output_data ((n * channels + c) * (dim' sdiv stride_d) + pd) = v"
    using assms(6) C(2) by (simp add: SoftPool1dForward_eq SoftPool1dForward_value_def co xs_def)
  then show ?thesis using C(1) by (simp add: xs_def)
qed

theorem constant_window_exact_witness:
  "(0::int) \<le> 0 \<and> (0::int) < 1 \<and> (1::int) < 4 sdiv 1 \<and> (0 * 1 + 0) * (4 sdiv 1) + 1 < (4::int)
   \<and> 0 < float32_min \<and> 1 \<le> float32_max \<and> \<bar>1::real\<bar> \<le> float32_max
   \<and> float32_min \<le> real (length (window_axis 4 3 1 1)) * exp 1
   \<and> real (length (window_axis 4 3 1 1)) * exp 1 \<le> float32_max
   \<and> norm_weight exp float32_max float32_min
           (map (\<lambda>d. buffer_of [1, 1, 1, 0] ((0 * 1 + 0) * 4 + d)) (window_axis 4 3 1 1)) 1
         = 1 / real (length (window_axis 4 3 1 1))
   \<and> SoftPool1dForward exp float32_max float32_min 4 (buffer_of [1, 1, 1, 0]) 1 1 4 3 1 (\<lambda>_. 0)
         ((0 * 1 + 0) * (4 sdiv 1) + 1) = 1"
proof -
  have w: "window_axis 4 3 1 1 = [0, 1, 2]" by code_simp
  have h: "\<forall>d\<in>set (window_axis 4 3 1 1). buffer_of [1, 1, 1, 0] ((0 * 1 + 0) * 4 + d) = 1"
    by (simp add: w buffer_of_def)
  have b: "float32_min \<le> real (length (window_axis 4 3 1 1)) * exp 1"
    "real (length (window_axis 4 3 1 1)) * exp 1 \<le> float32_max"
    using float32_limits exp_1_lower exp_1_upper by (simp_all add: w)
  show ?thesis
    using constant_window_exact[where n=0 and c=0 and channels=1 and pd=1 and dim'=4
        and stride_d=1 and nthreads=4 and kernel_d=3 and bottom_input="buffer_of [1, 1, 1, 0]"
        and v=1 and lower=float32_min and upper=float32_max and ex=exp and batches=1
        and output_data="\<lambda>_. 0", OF _ _ _ _ _ _ h _ _ _ b] float32_limits b
    by simp
qed

section \<open>Where the kernels depart from the specification\<close>

text \<open>
  C3.  The 3D kernels read the window cell \<open>(d, y, x)\<close> at \<open>d * height + y * width + x\<close>,
  which is not the row-major offset \<open>(d * height + y) * width + x\<close>: in a 2 x 2 x 2 slice
  the cell \<open>(1, 0, 0)\<close> is read at offset 2, where the cell \<open>(0, 1, 0)\<close> lies, and not
  at offset 4.  With kernel and stride 1 on the input that holds \<open>i\<close> at offset \<open>i\<close>, the
  output cell \<open>(1, 0, 0)\<close> of the forward kernel is therefore 2 and not 4.
\<close>

theorem offset3d_is_not_row_major:
  "SoftPool3dForward_offset 2 2 1 0 0 = 2 \<and> SoftPool3dBackward_offset 2 2 1 0 0 = 2
   \<and> row_major3d 2 2 1 0 0 = 4
   \<and> SoftPool3dForward_offset 2 2 0 1 0 = 2 \<and> row_major3d 2 2 0 1 0 = 2
   \<and> SoftPool3dForward exp float32_max float32_min 8 (buffer_of [0, 1, 2, 3, 4, 5, 6, 7])
        1 1 2 2 2 1 1 1 1 1 1 (\<lambda>_. 0) 4 = 2"
proof -
  have co: "SoftPool3dForward_coords 1 2 2 2 1 1 1 4 = (0, 0, 1, 0, 0)" by code_simp
  have w: "window3d 2 2 2 1 1 1 1 1 1 1 0 0 = [(1, 0, 0)]" by code_simp
  have "soft_pool exp float32_max float32_min [2] = 2"
    using soft_pool_exact(3)[where ex=exp and xs="[2]" and lower=float32_min and upper=float32_max]
      float32_limits exp_2_bounds by simp
  then have "SoftPool3dForward exp float32_max float32_min 8 (buffer_of [0, 1, 2, 3, 4, 5, 6, 7])
        1 1 2 2 2 1 1 1 1 1 1 (\<lambda>_. 0) 4 = 2"
    by (simp add: SoftPool3dForward_eq SoftPool3dForward_value_def co w buffer_of_def
        SoftPool3dForward_offset_def)
  then show ?thesis
    by (simp add: SoftPool3dForward_offset_def SoftPool3dBackward_offset_def row_major3d_def)
qed

text \<open>
  C4.  The 3D backward kernel takes its pooled height from the width: for a 1 x 4 x 2 input
  with strides 1, 2, 1 it computes the pooled extents \<open>(1, 1, 2)\<close> where the forward kernel
  computes \<open>(1, 2, 2)\<close>, and it decomposes the output index 2 into batch 1, outside the
  single batch, where the forward kernel finds the cell \<open>(0, 1, 0)\<close> of batch 0.
\<close>

theorem pooled_height_3d_backward:
  "SoftPool3dBackward_pooled 1 4 2 1 2 1 = (1, 1, 2)
   \<and> SoftPool3dForward_pooled 1 4 2 1 2 1 = (1, 2, 2)
   \<and> SoftPool3dBackward_coords 1 1 4 2 1 2 1 2 = (1, 0, 0, 0, 0)
   \<and> SoftPool3dForward_coords 1 1 4 2 1 2 1 2 = (0, 0, 0, 1, 0)"
  by code_simp

text \<open>The other five kernels divide the extent of each axis by the stride of that axis.\<close>

lemma pooled_extents_of_the_other_kernels:
  "SoftPool1dForward_pooled dim' stride_d = dim' sdiv stride_d"
  "SoftPool2dForward_pooled height width stride_h stride_w
   = (height sdiv stride_h, width sdiv stride_w)"
  "SoftPool3dForward_pooled depth height width stride_d stride_h stride_w
   = (depth sdiv stride_d, height sdiv stride_h, width sdiv stride_w)"
  "SoftPool1dBackward_pooled dim' stride_d = dim' sdiv stride_d"
  "SoftPool2dBackward_pooled height width stride_h stride_w
   = (height sdiv stride_h, width sdiv stride_w)"
  by (simp_all add: SoftPool1dForward_pooled_def SoftPool2dForward_pooled_def
      SoftPool3dForward_pooled_def SoftPool1dBackward_pooled_def SoftPool2dBackward_pooled_def)

text \<open>
  C6.  The clamp of the weight sum multiplies by the sign of its argument, so it maps 0
  to 0 and not to \<open>lower\<close>: for a window of two cells that hold \<open>- 1000\<close>, whose
  exponentials underflow to zero, the weight sum after the clamp is 0.
\<close>

theorem mask_sum_zero_after_clamp:
  "SoftPool1dForward_mask_sum float32_exp float32_max float32_min (buffer_of [- 1000, - 1000])
     2 2 1 1 = 0"
proof -
  have w: "window_axis 2 2 1 1 = [0, 1]"
    by code_simp
  show ?thesis
    unfolding SoftPool1dForward_mask_sum_eq w
    by (simp add: weight_sum_def safe_exp_def clamp_magnitude_def sign_def buffer_of_def
        float32_exp_def)
qed

text \<open>The clamp maps 0 to 0 for every pair of bounds.\<close>

lemma clamp_of_zero: "clamp 0 lower upper = 0"
  by (simp add: clamp_def sgn_scalar_def)

section \<open>Launch geometry\<close>

text \<open>
  The kernel theorems above take the number of threads as a parameter.  When every stride
  divides its extent, a launcher starts one thread for each output cell, as the theorem
  for the backward kernels assumes; otherwise its left-associated quotient can exceed the
  number of output cells (3 threads for 2 cells with 2 batches of extent 3 and stride 2).
\<close>

lemma sdiv_mult_dvd:
  fixes a b s :: int
  assumes "0 \<le> a" "0 \<le> b" "0 < s" "s dvd b"
  shows "(a * b) sdiv s = a * (b sdiv s)"
proof -
  have "(a * b) sdiv s = (a * b) div s"
    using assms by (intro sdiv_nonneg) auto
  also have "\<dots> = a * (b div s)"
    using assms(4) by (simp add: div_mult_swap)
  also have "b div s = b sdiv s"
    using assms by (simp add: sdiv_nonneg)
  finally show ?thesis .
qed

lemma SoftPool1dBackwardLauncher_eq:
  assumes "0 \<le> batches" "0 \<le> dim'" "0 < stride_d" "stride_d dvd dim'"
  shows "SoftPool1dBackwardLauncher ex upper lower output_grad input batches channels dim'
           kernel_d stride_d input_grad
         = SoftPool1dBackward ex upper lower (batches * channels * (dim' sdiv stride_d))
             output_grad input batches channels dim' kernel_d stride_d input_grad"
  unfolding SoftPool1dBackwardLauncher_def Let_def sdiv_mult_dvd[OF assms]
  by (simp add: mult_ac)

lemma SoftPool1dForwardLauncher_eq:
  assumes "0 \<le> batches" "0 \<le> dim'" "0 < stride_d" "stride_d dvd dim'"
  shows "SoftPool1dForwardLauncher ex upper lower input batches channels dim' kernel_d stride_d
           output
         = SoftPool1dForward ex upper lower (batches * channels * (dim' sdiv stride_d))
             input batches channels dim' kernel_d stride_d output"
  unfolding SoftPool1dForwardLauncher_def Let_def sdiv_mult_dvd[OF assms]
  by (simp add: mult_ac)

lemma launcher_thread_count_without_divisibility:
  "((2 * 3) sdiv 2) * 1 = (3::int)" "2 * 1 * (3 sdiv 2) = (2::int)"
  by simp_all

end
